theory Spec2Isabelle
  imports Complex_Main
begin


section \<open>Data model\<close>

text \<open>
  The timeline component of the scheduler, \<^verbatim>\<open>TimelineDisplay.tsx\<close>, together with its
  parent \<^verbatim>\<open>ScheduleManager\<close> and the dialog \<^verbatim>\<open>TimePickerModal\<close>.

  JavaScript numbers are modelled as exact real numbers: the rounding of the binary
  representation, the infinities and NaN are not modelled. \<^verbatim>\<open>Math.round\<close> rounds a tie
  upwards, as \<^const>\<open>round\<close> does, and \<^verbatim>\<open>Math.floor\<close> is \<^const>\<open>floor\<close>.

  The field \<^verbatim>\<open>id\<close> of the source is \<open>id_blk\<close> here and \<^verbatim>\<open>end\<close> is \<open>end_blk\<close>, since
  both names are taken.
\<close>

record TimeBlockData =
  id_blk :: string
  start :: real
  end_blk :: real
  label :: string
  color :: string
  calendarId :: string

datatype js_error = TypeError

definition MIN_ROW_COUNT :: nat where
  "MIN_ROW_COUNT = 3"

section \<open>Row packing\<close>

text \<open>
  The \<^verbatim>\<open>useMemo\<close> that computes \<^verbatim>\<open>blockRows\<close> and \<^verbatim>\<open>maxRow\<close>. The JavaScript \<^verbatim>\<open>Map\<close> is
  an association list in insertion order; \<^verbatim>\<open>rows.set\<close> replaces the value of a key that
  is present, in place, and appends a new key.
\<close>

fun mapSet :: "'k \<Rightarrow> 'v \<Rightarrow> ('k \<times> 'v) list \<Rightarrow> ('k \<times> 'v) list" where
  "mapSet k v [] = [(k, v)]"
| "mapSet k v ((k', v') # es) = (if k' = k then (k, v) # es else (k', v') # mapSet k v es)"

text \<open>
  The condition of the \<^verbatim>\<open>while\<close> loop:
  \<^verbatim>\<open>[...rows.entries()].some(([id, r]) => r === row && blocks.find(b => b.id === id)!.start < block.end
      && blocks.find(b => b.id === id)!.end > block.start)\<close>.
  The \<^verbatim>\<open>!\<close> is erased at run time: reading \<^verbatim>\<open>.start\<close> of a block that \<^verbatim>\<open>find\<close> did not
  find throws a TypeError.
\<close>

fun someOverlap ::
  "TimeBlockData list \<Rightarrow> (string \<times> nat) list \<Rightarrow> nat \<Rightarrow> TimeBlockData \<Rightarrow> js_error + bool" where
  "someOverlap blocks [] row block = Inr False"
| "someOverlap blocks ((i, r) # es) row block =
     (if r = row then
        (case find (\<lambda>b. id_blk b = i) blocks of
           None \<Rightarrow> Inl TypeError
         | Some b \<Rightarrow>
             if start b < end_blk block \<and> end_blk b > start block then Inr True
             else someOverlap blocks es row block)
      else someOverlap blocks es row block)"

text \<open>\<^verbatim>\<open>let row = 0; while (...) { row++; }\<close>, started at \<open>row\<close>.\<close>

function findRow ::
  "TimeBlockData list \<Rightarrow> (string \<times> nat) list \<Rightarrow> TimeBlockData \<Rightarrow> nat \<Rightarrow> js_error + nat" where
  "findRow blocks rows block row =
     (case someOverlap blocks rows row block of
        Inl e \<Rightarrow> Inl e
      | Inr c \<Rightarrow> if c then findRow blocks rows block (Suc row) else Inr row)"
  by pat_completeness auto

lemma someOverlap_TrueD:
  "someOverlap blocks rows row block = Inr True \<Longrightarrow> row \<in> snd ` set rows"
  by (induction rows) (auto split: if_splits option.splits)

lemma row_le_Max: "row \<in> snd ` set rows \<Longrightarrow> row \<le> Max (snd ` set rows)"
  by (rule Max_ge) auto

termination findRow
proof (relation "measure (\<lambda>(blocks, rows, block, row). Suc (Max (snd ` set rows)) - row)")
  show "wf (measure (\<lambda>(blocks, rows, block, row). Suc (Max (snd ` set rows)) - row))"
    by simp
next
  fix blocks :: "TimeBlockData list" and rows :: "(string \<times> nat) list"
    and block :: TimeBlockData and row :: nat and c :: bool
  assume "someOverlap blocks rows row block = Inr c" and "c"
  then have "row \<in> snd ` set rows"
    by (simp add: someOverlap_TrueD)
  then have "row \<le> Max (snd ` set rows)"
    by (rule row_le_Max)
  then have "Suc (Max (snd ` set rows)) - Suc row < Suc (Max (snd ` set rows)) - row"
    by arith
  then show "((blocks, rows, block, Suc row), (blocks, rows, block, row))
      \<in> measure (\<lambda>(blocks, rows, block, row). Suc (Max (snd ` set rows)) - row)"
    by simp
qed

text \<open>
  One pass of the \<^verbatim>\<open>forEach\<close> body over the state \<open>(rows, maxRowFound)\<close>, and the
  whole \<^verbatim>\<open>forEach\<close>.
\<close>

fun packStep ::
  "TimeBlockData list \<Rightarrow> TimeBlockData \<Rightarrow> (string \<times> nat) list \<times> nat
    \<Rightarrow> js_error + (string \<times> nat) list \<times> nat" where
  "packStep blocks block (rows, maxRowFound) =
     (case findRow blocks rows block 0 of
        Inl e \<Rightarrow> Inl e
      | Inr row \<Rightarrow> Inr (mapSet (id_blk block) row rows, max maxRowFound row))"

fun packLoop ::
  "TimeBlockData list \<Rightarrow> TimeBlockData list \<Rightarrow> (string \<times> nat) list \<times> nat
    \<Rightarrow> js_error + (string \<times> nat) list \<times> nat" where
  "packLoop blocks [] st = Inr st"
| "packLoop blocks (block # rest) st =
     (case packStep blocks block st of
        Inl e \<Rightarrow> Inl e
      | Inr st' \<Rightarrow> packLoop blocks rest st')"

text \<open>
  \<^verbatim>\<open>[...blocks].sort((a, b) => a.start - b.start)\<close>: the sort of an array is stable, and
  the stable sort by a key is unique, so it is \<^const>\<open>sort_key\<close>. The result is the pair
  \<^verbatim>\<open>{ blockRows, maxRow }\<close>.
\<close>

definition blockRows_maxRow ::
  "TimeBlockData list \<Rightarrow> js_error + (string \<times> nat) list \<times> nat" where
  "blockRows_maxRow blocks =
     (case packLoop blocks (sort_key start blocks) ([], 0) of
        Inl e \<Rightarrow> Inl e
      | Inr (rows, maxRowFound) \<Rightarrow> Inr (rows, max (maxRowFound + 1) MIN_ROW_COUNT))"

text \<open>The overlap test of the loop condition, as a predicate on two blocks.\<close>

definition overlap :: "TimeBlockData \<Rightarrow> TimeBlockData \<Rightarrow> bool" where
  "overlap a b \<longleftrightarrow> start a < end_blk b \<and> end_blk a > start b"


subsection \<open>Facts about the row map and the loop\<close>

lemma mapSet_fresh: "k \<notin> fst ` set es \<Longrightarrow> mapSet k v es = es @ [(k, v)]"
  by (induction es) auto

lemma length_mapSet: "length (mapSet k v es) \<le> Suc (length es)"
  by (induction es) auto

lemma keys_mapSet: "fst ` set (mapSet k v es) = insert k (fst ` set es)"
  by (induction k v es rule: mapSet.induct) auto

lemma findRow_InrD:
  "findRow blocks rows block row0 = Inr r \<Longrightarrow>
     row0 \<le> r \<and> someOverlap blocks rows r block = Inr False \<and>
     (\<forall>r'. row0 \<le> r' \<and> r' < r \<longrightarrow> someOverlap blocks rows r' block = Inr True)"
proof (induction blocks rows block row0 rule: findRow.induct)
  case (1 blocks rows block row)
  show ?case
  proof (cases "someOverlap blocks rows row block")
    case (Inl e)
    with "1.prems" show ?thesis by simp
  next
    case (Inr c)
    show ?thesis
    proof (cases c)
      case True
      with Inr "1.prems" have "findRow blocks rows block (Suc row) = Inr r"
        by simp
      with "1.IH" [OF Inr True] have ih: "Suc row \<le> r"
        "someOverlap blocks rows r block = Inr False"
        "\<forall>r'. Suc row \<le> r' \<and> r' < r \<longrightarrow> someOverlap blocks rows r' block = Inr True"
        by simp_all
      have "someOverlap blocks rows r' block = Inr True" if "row \<le> r'" "r' < r" for r'
      proof (cases "r' = row")
        case True
        then show ?thesis using Inr \<open>c\<close> by simp
      next
        case False
        with that ih(3) show ?thesis by simp
      qed
      with ih show ?thesis by simp
    next
      case False
      with Inr "1.prems" show ?thesis by auto
    qed
  qed
qed

lemma findRow_le_length:
  assumes "findRow blocks rows block 0 = Inr r"
  shows "r \<le> length rows"
proof -
  have "{..<r} \<subseteq> snd ` set rows"
    using findRow_InrD [OF assms] someOverlap_TrueD by blast
  then have "card {..<r} \<le> card (snd ` set rows)"
    by (intro card_mono) auto
  also have "\<dots> \<le> card (set rows)"
    by (simp add: card_image_le)
  also have "\<dots> \<le> length rows"
    by (rule card_length)
  finally show ?thesis by simp
qed


lemma find_id_Some:
  "x \<in> set blocks \<Longrightarrow> \<exists>y. find (\<lambda>b. id_blk b = id_blk x) blocks = Some y"
  by (cases "find (\<lambda>b. id_blk b = id_blk x) blocks") (auto simp: find_None_iff)

lemma find_id_distinct:
  "distinct (map id_blk blocks) \<Longrightarrow> x \<in> set blocks \<Longrightarrow>
     find (\<lambda>b. id_blk b = id_blk x) blocks = Some x"
  by (induction blocks) (auto simp: image_iff)

definition lookupOk :: "TimeBlockData list \<Rightarrow> (string \<times> nat) list \<Rightarrow> bool" where
  "lookupOk blocks rows \<longleftrightarrow> (\<forall>i \<in> fst ` set rows. \<exists>y. find (\<lambda>b. id_blk b = i) blocks = Some y)"

lemma someOverlap_total:
  "lookupOk blocks rows \<Longrightarrow> \<exists>c. someOverlap blocks rows row block = Inr c"
  by (induction rows) (auto simp: lookupOk_def)

lemma findRow_total:
  "lookupOk blocks rows \<Longrightarrow> \<exists>r. findRow blocks rows block row0 = Inr r"
proof (induction blocks rows block row0 rule: findRow.induct)
  case (1 blocks rows block row)
  from someOverlap_total [OF "1.prems"] obtain c
    where c: "someOverlap blocks rows row block = Inr c" by blast
  show ?case
  proof (cases c)
    case True
    from "1.IH" [OF c True "1.prems"] obtain r
      where "findRow blocks rows block (Suc row) = Inr r" by blast
    with c True show ?thesis by simp
  next
    case False
    with c show ?thesis by simp
  qed
qed

lemma lookupOk_mapSet:
  "lookupOk blocks rows \<Longrightarrow> block \<in> set blocks \<Longrightarrow> lookupOk blocks (mapSet (id_blk block) r rows)"
  using find_id_Some by (auto simp: lookupOk_def keys_mapSet)

lemma packLoop_total:
  "lookupOk blocks rows \<Longrightarrow> set todo \<subseteq> set blocks \<Longrightarrow>
     \<exists>rows' m'. packLoop blocks todo (rows, m) = Inr (rows', m') \<and>
       m' \<le> max m (length rows + length todo - 1)"
proof (induction todo arbitrary: rows m)
  case Nil
  then show ?case by simp
next
  case (Cons block rest)
  from findRow_total [OF Cons.prems(1)] obtain r
    where r: "findRow blocks rows block 0 = Inr r" by blast
  let ?rows1 = "mapSet (id_blk block) r rows"
  have ok: "lookupOk blocks ?rows1"
    using Cons.prems by (simp add: lookupOk_mapSet)
  from Cons.IH [OF ok, of "max m r"] Cons.prems(2) obtain rows' m'
    where res: "packLoop blocks rest (?rows1, max m r) = Inr (rows', m')"
      and le: "m' \<le> max (max m r) (length ?rows1 + length rest - 1)"
    by auto
  have "r \<le> length rows"
    using r by (rule findRow_le_length)
  moreover have "length ?rows1 \<le> Suc (length rows)"
    by (rule length_mapSet)
  ultimately have "m' \<le> max m (length rows + length (block # rest) - 1)"
    using le by auto
  with r res show ?case by simp
qed

lemma lookupOk_Nil: "lookupOk blocks []"
  by (simp add: lookupOk_def)

lemma blockRows_maxRow_total:
  "\<exists>rows maxRowFound. packLoop blocks (sort_key start blocks) ([], 0) = Inr (rows, maxRowFound) \<and>
     blockRows_maxRow blocks = Inr (rows, max (maxRowFound + 1) MIN_ROW_COUNT) \<and>
     maxRowFound \<le> length blocks - 1"
proof -
  from packLoop_total [OF lookupOk_Nil, of "sort_key start blocks" blocks 0]
  obtain rows m where "packLoop blocks (sort_key start blocks) ([], 0) = Inr (rows, m)"
    and "m \<le> length blocks - 1"
    by auto
  then show ?thesis
    by (simp add: blockRows_maxRow_def)
qed


definition greedyRow :: "(string \<times> nat) list \<Rightarrow> TimeBlockData list \<Rightarrow> TimeBlockData \<Rightarrow> bool" where
  "greedyRow rows earlier b \<longleftrightarrow>
     (\<exists>r. map_of rows (id_blk b) = Some r \<and>
        (\<forall>x\<in>set earlier. map_of rows (id_blk x) = Some r \<longrightarrow> \<not> overlap x b) \<and>
        (\<forall>r'<r. \<exists>x\<in>set earlier. map_of rows (id_blk x) = Some r' \<and> overlap x b))"

lemma overlap_sym: "overlap a b \<longleftrightarrow> overlap b a"
  by (auto simp: overlap_def)

lemma someOverlap_done:
  assumes "map fst rows = map id_blk done"
    and "distinct (map id_blk done)"
    and "\<forall>x\<in>set done. find (\<lambda>b. id_blk b = id_blk x) blocks = Some x"
  shows "someOverlap blocks rows row block =
     Inr (\<exists>x\<in>set done. map_of rows (id_blk x) = Some row \<and> overlap x block)"
  using assms
proof (induction "done" arbitrary: rows)
  case Nil
  then show ?case by simp
next
  case (Cons x xs)
  from Cons.prems(1) obtain r es where rows: "rows = (id_blk x, r) # es"
    and es: "map fst es = map id_blk xs"
    by (cases rows) auto
  have ih: "someOverlap blocks es row block =
     Inr (\<exists>y\<in>set xs. map_of es (id_blk y) = Some row \<and> overlap y block)"
    using Cons.IH [OF es] Cons.prems by simp
  have fx: "find (\<lambda>b. id_blk b = id_blk x) blocks = Some x"
    using Cons.prems by simp
  have other: "map_of rows (id_blk y) = map_of es (id_blk y)" if "y \<in> set xs" for y
    using that Cons.prems(2) rows by (auto simp: image_iff)
  have "(\<exists>y\<in>set (x # xs). map_of rows (id_blk y) = Some row \<and> overlap y block) \<longleftrightarrow>
      (r = row \<and> overlap x block) \<or>
      (\<exists>y\<in>set xs. map_of es (id_blk y) = Some row \<and> overlap y block)"
    using other rows by auto
  then show ?case
    using rows fx ih by (auto simp: overlap_def)
qed


lemma map_of_append_left:
  "k \<in> fst ` set xs \<Longrightarrow> map_of (xs @ ys) k = map_of xs k"
  by (cases "map_of xs k") (auto simp: map_of_eq_None_iff map_add_def)

lemma map_of_append_fresh:
  "k \<notin> fst ` set xs \<Longrightarrow> map_of (xs @ (k, v) # ys) k = Some v"
  by (simp add: map_add_def map_of_eq_None_iff [THEN iffD2])

lemma Max_insert_max:
  "finite S \<Longrightarrow> Max (insert (max m r) S) = Max (insert (m::nat) (insert r S))"
  by (cases "S = {}") (simp_all add: max.assoc)

lemma packLoop_greedy:
  assumes "distinct (map id_blk (done @ todo))"
    and "\<forall>x\<in>set (done @ todo). find (\<lambda>b. id_blk b = id_blk x) blocks = Some x"
    and "map fst rows = map id_blk done"
  shows "\<exists>new m'. packLoop blocks todo (rows, m) = Inr (rows @ new, m') \<and>
     map fst new = map id_blk todo \<and> m' = Max (insert m (snd ` set new)) \<and>
     (\<forall>k<length todo. greedyRow (rows @ new) (done @ take k todo) (todo ! k))"
  using assms
proof (induction todo arbitrary: "done" rows m)
  case Nil
  then show ?case by simp
next
  case (Cons b rest)
  have keys: "fst ` set rows = id_blk ` set done"
    using Cons.prems(3) by (metis list.set_map)
  have dist: "distinct (map id_blk done)"
    using Cons.prems(1) by simp
  have found: "\<forall>x\<in>set done. find (\<lambda>b. id_blk b = id_blk x) blocks = Some x"
    using Cons.prems(2) by simp
  have ok: "lookupOk blocks rows"
    using keys found by (auto simp: lookupOk_def)
  from findRow_total [OF ok] obtain r where r: "findRow blocks rows b 0 = Inr r"
    by blast
  note so = someOverlap_done [OF Cons.prems(3) dist found]
  from findRow_InrD [OF r] have free: "\<not> (\<exists>x\<in>set done. map_of rows (id_blk x) = Some r \<and> overlap x b)"
    and below: "\<forall>r'<r. \<exists>x\<in>set done. map_of rows (id_blk x) = Some r' \<and> overlap x b"
    by (simp_all add: so)
  have fresh: "id_blk b \<notin> fst ` set rows"
    using Cons.prems(1) keys by auto
  let ?rows1 = "rows @ [(id_blk b, r)]"
  have step: "packStep blocks b (rows, m) = Inr (?rows1, max m r)"
    using r fresh by (simp add: mapSet_fresh)
  have "\<exists>new m'. packLoop blocks rest (?rows1, max m r) = Inr (?rows1 @ new, m') \<and>
     map fst new = map id_blk rest \<and> m' = Max (insert (max m r) (snd ` set new)) \<and>
     (\<forall>k<length rest. greedyRow (?rows1 @ new) ((done @ [b]) @ take k rest) (rest ! k))"
    using Cons.prems by (intro Cons.IH) simp_all
  then obtain new m' where res: "packLoop blocks rest (?rows1, max m r) = Inr (?rows1 @ new, m')"
    and new: "map fst new = map id_blk rest"
    and m': "m' = Max (insert (max m r) (snd ` set new))"
    and gr: "\<forall>k<length rest. greedyRow (?rows1 @ new) ((done @ [b]) @ take k rest) (rest ! k)"
    by blast
  let ?new = "(id_blk b, r) # new"
  have 1: "packLoop blocks (b # rest) (rows, m) = Inr (rows @ ?new, m')"
    using step res by simp
  have 2: "map fst ?new = map id_blk (b # rest)"
    using new by simp
  have 3: "m' = Max (insert m (snd ` set ?new))"
    unfolding m' by (simp only: list.set image_insert snd_conv Max_insert_max [OF finite_imageI [OF finite_set]])
  have same: "map_of (rows @ ?new) (id_blk x) = map_of rows (id_blk x)" if "x \<in> set done" for x
    using that keys by (intro map_of_append_left) auto
  have b_row: "map_of (rows @ ?new) (id_blk b) = Some r"
    using fresh by (rule map_of_append_fresh)
  have g0: "greedyRow (rows @ ?new) done b"
    unfolding greedyRow_def using b_row free below same by auto
  have 4: "greedyRow (rows @ ?new) (done @ take k (b # rest)) ((b # rest) ! k)"
    if "k < length (b # rest)" for k
  proof (cases k)
    case 0
    with g0 show ?thesis by simp
  next
    case (Suc k')
    with that gr show ?thesis by simp
  qed
  from 1 2 3 4 show ?case by blast
qed

subsection \<open>The rows assigned by the loop\<close>

text \<open>
  The rows that the loop assigns, written as a list \<open>rs\<close> along the order in which the
  blocks are processed. \<open>rowMapAt order rs k\<close> is the row map when the first \<open>k\<close> blocks
  have their rows: an id is mapped to the row of the last of these blocks that has it,
  as \<^verbatim>\<open>blockRows.set\<close> leaves it. A row is in conflict for a block when the map sends to it
  an id whose block, found in the snapshot by \<^verbatim>\<open>find\<close>, overlaps the block; the loop
  stops at the least row that is free of conflict.
\<close>

definition lastRows :: "string list \<Rightarrow> nat list \<Rightarrow> string \<Rightarrow> nat option" where
  "lastRows ids rs = map_of (rev (zip ids rs))"

definition rowMapAt :: "TimeBlockData list \<Rightarrow> nat list \<Rightarrow> nat \<Rightarrow> string \<Rightarrow> nat option" where
  "rowMapAt order rs k = lastRows (map id_blk (take k order)) (take k rs)"

definition conflictAt ::
  "TimeBlockData list \<Rightarrow> (string \<Rightarrow> nat option) \<Rightarrow> TimeBlockData \<Rightarrow> nat \<Rightarrow> bool" where
  "conflictAt blocks m b r \<longleftrightarrow>
     (\<exists>i y. m i = Some r \<and> find (\<lambda>x. id_blk x = i) blocks = Some y \<and> overlap y b)"

definition leastFree ::
  "TimeBlockData list \<Rightarrow> (string \<Rightarrow> nat option) \<Rightarrow> TimeBlockData \<Rightarrow> nat \<Rightarrow> bool" where
  "leastFree blocks m b r \<longleftrightarrow>
     \<not> conflictAt blocks m b r \<and> (\<forall>r'<r. conflictAt blocks m b r')"

lemma map_of_mapSet: "map_of (mapSet k v es) = (map_of es)(k \<mapsto> v)"
  by (induction k v es rule: mapSet.induct) (auto simp: fun_eq_iff)

lemma distinct_mapSet: "distinct (map fst es) \<Longrightarrow> distinct (map fst (mapSet k v es))"
  by (induction k v es rule: mapSet.induct) (auto simp: keys_mapSet)

lemma lastRows_snoc:
  "length ids = length rs \<Longrightarrow> lastRows (ids @ [i]) (rs @ [r]) = (lastRows ids rs)(i \<mapsto> r)"
  by (simp add: lastRows_def fun_eq_iff)

lemma someOverlap_map:
  assumes "lookupOk blocks rows" and "distinct (map fst rows)"
  shows "someOverlap blocks rows row block = Inr (conflictAt blocks (map_of rows) block row)"
  using assms
proof (induction rows)
  case Nil
  then show ?case by (simp add: conflictAt_def)
next
  case (Cons e es)
  obtain i r where e: "e = (i, r)" by (cases e)
  from Cons.prems(1) obtain y where y: "find (\<lambda>b. id_blk b = i) blocks = Some y"
    by (auto simp: lookupOk_def e)
  have ok: "lookupOk blocks es"
    using Cons.prems(1) by (auto simp: lookupOk_def)
  have fresh: "map_of es i = None"
    using Cons.prems(2) by (simp add: e map_of_eq_None_iff)
  have ih: "someOverlap blocks es row block = Inr (conflictAt blocks (map_of es) block row)"
    using Cons.IH [OF ok] Cons.prems(2) by simp
  have split: "conflictAt blocks (map_of (e # es)) block row \<longleftrightarrow>
      (r = row \<and> overlap y block) \<or> conflictAt blocks (map_of es) block row"
  proof
    assume "conflictAt blocks (map_of (e # es)) block row"
    then obtain j z where j: "map_of (e # es) j = Some row"
      and z: "find (\<lambda>x. id_blk x = j) blocks = Some z" "overlap z block"
      by (auto simp: conflictAt_def)
    show "(r = row \<and> overlap y block) \<or> conflictAt blocks (map_of es) block row"
    proof (cases "j = i")
      case True
      with j z y show ?thesis by (simp add: e)
    next
      case False
      with j have "map_of es j = Some row" by (simp add: e)
      with z show ?thesis by (auto simp: conflictAt_def)
    qed
  next
    assume "(r = row \<and> overlap y block) \<or> conflictAt blocks (map_of es) block row"
    then show "conflictAt blocks (map_of (e # es)) block row"
    proof
      assume "r = row \<and> overlap y block"
      with y show ?thesis
        unfolding conflictAt_def e by (intro exI [of _ i] exI [of _ y]) simp
    next
      assume "conflictAt blocks (map_of es) block row"
      then obtain j z where j: "map_of es j = Some row"
        and z: "find (\<lambda>x. id_blk x = j) blocks = Some z" "overlap z block"
        by (auto simp: conflictAt_def)
      from j fresh have "j \<noteq> i" by auto
      with j z show ?thesis
        unfolding conflictAt_def e by (intro exI [of _ j] exI [of _ z]) simp
    qed
  qed
  show ?case
    unfolding split using y ih by (auto simp: e overlap_def)
qed

lemma packLoop_assigned:
  assumes "set todo \<subseteq> set blocks" and "lookupOk blocks rows" and "distinct (map fst rows)"
    and "length rs0 = length done"
    and "map_of rows = lastRows (map id_blk done) rs0"
  shows "\<exists>rs1 rows' m'. length rs1 = length todo \<and>
     packLoop blocks todo (rows, m) = Inr (rows', m') \<and>
     map_of rows' = lastRows (map id_blk (done @ todo)) (rs0 @ rs1) \<and>
     m' = Max (insert m (set rs1)) \<and>
     (\<forall>k<length todo.
        leastFree blocks (lastRows (map id_blk (done @ take k todo)) (rs0 @ take k rs1))
          (todo ! k) (rs1 ! k))"
  using assms
proof (induction todo arbitrary: "done" rows m rs0)
  case Nil
  then show ?case by simp
next
  case (Cons b rest)
  from findRow_total [OF Cons.prems(2)] obtain r where r: "findRow blocks rows b 0 = Inr r"
    by blast
  note so = someOverlap_map [OF Cons.prems(2,3)]
  from findRow_InrD [OF r] have lf: "leastFree blocks (map_of rows) b r"
    by (simp add: so leastFree_def)
  let ?rows1 = "mapSet (id_blk b) r rows"
  have step: "packStep blocks b (rows, m) = Inr (?rows1, max m r)"
    using r by simp
  have b_in: "b \<in> set blocks" and rest_in: "set rest \<subseteq> set blocks"
    using Cons.prems(1) by simp_all
  have ok1: "lookupOk blocks ?rows1"
    using Cons.prems(2) b_in by (rule lookupOk_mapSet)
  have d1: "distinct (map fst ?rows1)"
    using Cons.prems(3) by (rule distinct_mapSet)
  have l1: "length (rs0 @ [r]) = length (done @ [b])"
    using Cons.prems(4) by simp
  have m1: "map_of ?rows1 = lastRows (map id_blk (done @ [b])) (rs0 @ [r])"
    using Cons.prems(4,5) by (simp add: map_of_mapSet lastRows_snoc)
  from Cons.IH [OF rest_in ok1 d1 l1 m1, of "max m r"]
  obtain rs1 rows' m' where len: "length rs1 = length rest"
    and res: "packLoop blocks rest (?rows1, max m r) = Inr (rows', m')"
    and fin: "map_of rows' = lastRows (map id_blk ((done @ [b]) @ rest)) ((rs0 @ [r]) @ rs1)"
    and m': "m' = Max (insert (max m r) (set rs1))"
    and lfs: "\<forall>k<length rest.
        leastFree blocks (lastRows (map id_blk ((done @ [b]) @ take k rest)) ((rs0 @ [r]) @ take k rs1))
          (rest ! k) (rs1 ! k)"
    by blast
  let ?rs = "r # rs1"
  have 1: "length ?rs = length (b # rest)"
    using len by simp
  have 2: "packLoop blocks (b # rest) (rows, m) = Inr (rows', m')"
    using step res by simp
  have 3: "map_of rows' = lastRows (map id_blk (done @ b # rest)) (rs0 @ ?rs)"
    using fin by simp
  have 4: "m' = Max (insert m (set ?rs))"
    unfolding m' by (simp only: list.set Max_insert_max [OF finite_set])
  have 5: "leastFree blocks (lastRows (map id_blk (done @ take k (b # rest))) (rs0 @ take k ?rs))
          ((b # rest) ! k) (?rs ! k)" if "k < length (b # rest)" for k
  proof (cases k)
    case 0
    with lf Cons.prems(5) show ?thesis by simp
  next
    case (Suc k')
    with that lfs show ?thesis by simp
  qed
  from 1 2 3 4 5 show ?case by blast
qed

lemma leastFree_unique: "leastFree blocks m b r \<Longrightarrow> leastFree blocks m b r' \<Longrightarrow> r = r'"
  by (metis leastFree_def linorder_neqE_nat)

lemma assigned_unique:
  assumes "length rs = n" and "length rs' = n"
    and "\<forall>k<n. leastFree blocks (rowMapAt order rs k) (order ! k) (rs ! k)"
    and "\<forall>k<n. leastFree blocks (rowMapAt order rs' k) (order ! k) (rs' ! k)"
  shows "rs' = rs"
proof -
  have "take k rs' = take k rs" if "k \<le> n" for k
    using that
  proof (induction k)
    case 0
    then show ?case by simp
  next
    case (Suc k)
    then have eq: "take k rs' = take k rs" and k: "k < n"
      by simp_all
    have "rowMapAt order rs' k = rowMapAt order rs k"
      by (simp add: rowMapAt_def eq)
    with assms(3,4) k have "rs' ! k = rs ! k"
      by (metis leastFree_unique)
    with eq k assms(1,2) show ?case
      by (simp add: take_Suc_conv_app_nth)
  qed
  from this [of n] assms(1,2) show ?thesis by simp
qed

text \<open>
  Three blocks of one calendar, in the order of the snapshot: the standup overlaps the
  meeting, lunch starts when the meeting ends.
\<close>

definition packingExample :: "TimeBlockData list" where
  "packingExample =
     [\<lparr>id_blk = ''meeting'', start = 10, end_blk = 12, label = ''Meeting'',
        color = ''#E6F3FF'', calendarId = ''work''\<rparr>,
      \<lparr>id_blk = ''standup'', start = 9, end_blk = 21 / 2, label = ''Standup'',
        color = ''#E6F3FF'', calendarId = ''work''\<rparr>,
      \<lparr>id_blk = ''lunch'', start = 12, end_blk = 13, label = ''Lunch'',
        color = ''#E6F3FF'', calendarId = ''work''\<rparr>]"

definition twoBlocks :: "TimeBlockData list" where
  "twoBlocks =
     [\<lparr>id_blk = ''meeting'', start = 10, end_blk = 12, label = ''Meeting'',
        color = ''#E6F3FF'', calendarId = ''work''\<rparr>,
      \<lparr>id_blk = ''standup'', start = 9, end_blk = 21 / 2, label = ''Standup'',
        color = ''#E6F3FF'', calendarId = ''work''\<rparr>]"

text \<open>Four blocks of one calendar, each overlapping the three others.\<close>

definition fourBlocks :: "TimeBlockData list" where
  "fourBlocks =
     [\<lparr>id_blk = ''c'', start = 11, end_blk = 14, label = ''C'',
        color = ''#E6F3FF'', calendarId = ''work''\<rparr>,
      \<lparr>id_blk = ''a'', start = 9, end_blk = 12, label = ''A'',
        color = ''#E6F3FF'', calendarId = ''work''\<rparr>,
      \<lparr>id_blk = ''d'', start = 23 / 2, end_blk = 15, label = ''D'',
        color = ''#E6F3FF'', calendarId = ''work''\<rparr>,
      \<lparr>id_blk = ''b'', start = 10, end_blk = 13, label = ''B'',
        color = ''#E6F3FF'', calendarId = ''work''\<rparr>]"

text \<open>
  Five blocks, the last two with the same id: the fourth takes row 3, and the fifth,
  which starts when the others have ended, takes row 0 and replaces the entry of the
  fourth in the row map.
\<close>

definition repeatedId :: "TimeBlockData list" where
  "repeatedId =
     [\<lparr>id_blk = ''a'', start = 9, end_blk = 12, label = ''A'',
        color = ''#E6F3FF'', calendarId = ''work''\<rparr>,
      \<lparr>id_blk = ''b'', start = 19 / 2, end_blk = 12, label = ''B'',
        color = ''#E6F3FF'', calendarId = ''work''\<rparr>,
      \<lparr>id_blk = ''c'', start = 39 / 4, end_blk = 12, label = ''C'',
        color = ''#E6F3FF'', calendarId = ''work''\<rparr>,
      \<lparr>id_blk = ''x'', start = 10, end_blk = 11, label = ''X'',
        color = ''#E6F3FF'', calendarId = ''work''\<rparr>,
      \<lparr>id_blk = ''x'', start = 12, end_blk = 13, label = ''X'',
        color = ''#E6F3FF'', calendarId = ''work''\<rparr>]"

lemma distinct_ids_sort:
  "distinct (map id_blk blocks) \<Longrightarrow> distinct (map id_blk (sort_key start blocks))"
  by (simp add: distinct_map)

lemma packingExample_rows:
  "blockRows_maxRow packingExample = Inr ([(''standup'', 0), (''meeting'', 1), (''lunch'', 0)], 3)"
  by (simp add: blockRows_maxRow_def packingExample_def MIN_ROW_COUNT_def)

lemma twoBlocks_rows:
  "blockRows_maxRow twoBlocks = Inr ([(''standup'', 0), (''meeting'', 1)], 3)"
  by (simp add: blockRows_maxRow_def twoBlocks_def MIN_ROW_COUNT_def)

lemma fourBlocks_rows:
  "blockRows_maxRow fourBlocks = Inr ([(''a'', 0), (''b'', 1), (''c'', 2), (''d'', 3)], 4)"
  by (simp add: blockRows_maxRow_def fourBlocks_def MIN_ROW_COUNT_def)

lemma repeatedId_rows:
  "blockRows_maxRow repeatedId = Inr ([(''a'', 0), (''b'', 1), (''c'', 2), (''x'', 0)], 4)"
  by (simp add: blockRows_maxRow_def repeatedId_def MIN_ROW_COUNT_def)

lemma fourBlocks_assigned:
  assumes "length rs = length fourBlocks"
    and "map_of [(''a'', 0), (''b'', 1), (''c'', 2), (''d'', 3)]
        = rowMapAt (sort_key start fourBlocks) rs (length fourBlocks)"
  shows "rs = [0, 1, 2, 3]"
proof -
  from assms(1) obtain r0 r1 r2 r3 where rs: "rs = [r0, r1, r2, r3]"
    by (auto simp: fourBlocks_def length_Suc_conv)
  have m: "rowMapAt (sort_key start fourBlocks) rs (length fourBlocks)
     = map_of [(''d'', r3), (''c'', r2), (''b'', r1), (''a'', r0)]"
    by (simp add: rs rowMapAt_def lastRows_def fourBlocks_def)
  from assms(2) [unfolded m]
  have "map_of [(''a'', 0), (''b'', 1), (''c'', 2), (''d'', 3)] i
     = map_of [(''d'', r3), (''c'', r2), (''b'', r1), (''a'', r0)] i" for i
    by simp
  from this [of "''a''"] this [of "''b''"] this [of "''c''"] this [of "''d''"]
  show ?thesis
    by (simp add: rs)
qed

lemma repeatedId_assigned:
  assumes "length rs = length repeatedId"
    and "map_of [(''a'', 0), (''b'', 1), (''c'', 2), (''x'', 0)]
        = rowMapAt (sort_key start repeatedId) rs (length repeatedId)"
    and "(4::nat) = max (Max (insert 0 (set rs)) + 1) 3"
  shows "rs = [0, 1, 2, 3, 0]"
proof -
  from assms(1) obtain r0 r1 r2 r3 r4 where rs: "rs = [r0, r1, r2, r3, r4]"
    by (auto simp: repeatedId_def length_Suc_conv)
  have m: "rowMapAt (sort_key start repeatedId) rs (length repeatedId)
     = map_of [(''x'', r4), (''x'', r3), (''c'', r2), (''b'', r1), (''a'', r0)]"
    by (simp add: rs rowMapAt_def lastRows_def repeatedId_def)
  from assms(2) [unfolded m]
  have "map_of [(''a'', 0), (''b'', 1), (''c'', 2), (''x'', 0)] i
     = map_of [(''x'', r4), (''x'', r3), (''c'', r2), (''b'', r1), (''a'', r0)] i" for i
    by simp
  from this [of "''a''"] this [of "''b''"] this [of "''c''"] this [of "''x''"]
  have r: "r0 = 0" "r1 = 1" "r2 = 2" "r4 = 0"
    by simp_all
  from assms(3) have "r3 = 3"
    by (simp add: rs r)
  with r show ?thesis
    by (simp add: rs)
qed

subsection \<open>The greedy assignment\<close>

text \<open>
  Claim C1. For a snapshot whose ids are distinct, the packing returns (no lookup
  fails). The blocks are processed in the order of the stable sort by \<open>start\<close>: that
  order is ascending in \<open>start\<close>, keeps the snapshot's order among equal starts, and is
  the insertion order of the row map. Each block gets the smallest row in which no block
  processed before it overlaps it, where two blocks overlap when
  \<open>a.start < b.end\<close> and \<open>a.end > b.start\<close> on the stored fields. Hence no two different
  blocks of one row overlap.
\<close>

theorem row_packing_greedy:
  assumes "distinct (map id_blk blocks)"
  shows "\<exists>rows maxRow. blockRows_maxRow blocks = Inr (rows, maxRow) \<and>
     sorted (map start (sort_key start blocks)) \<and>
     (\<forall>v. filter (\<lambda>b. start b = v) (sort_key start blocks) = filter (\<lambda>b. start b = v) blocks) \<and>
     map fst rows = map id_blk (sort_key start blocks) \<and>
     (\<forall>k<length blocks.
        greedyRow rows (take k (sort_key start blocks)) (sort_key start blocks ! k)) \<and>
     (\<forall>a\<in>set blocks. \<forall>b\<in>set blocks.
        a \<noteq> b \<and> map_of rows (id_blk a) = map_of rows (id_blk b) \<longrightarrow> \<not> overlap a b)"
proof -
  let ?order = "sort_key start blocks"
  have d: "distinct (map id_blk ([] @ ?order))"
    using assms by (simp add: distinct_ids_sort)
  have f: "\<forall>x\<in>set ([] @ ?order). find (\<lambda>b. id_blk b = id_blk x) blocks = Some x"
    using assms by (simp add: find_id_distinct)
  from packLoop_greedy [OF d f, of "[]" 0] obtain rows m
    where loop: "packLoop blocks ?order ([], 0) = Inr (rows, m)"
      and keys: "map fst rows = map id_blk ?order"
      and gr: "\<forall>k<length ?order. greedyRow rows (take k ?order) (?order ! k)"
    by auto
  have res: "blockRows_maxRow blocks = Inr (rows, max (m + 1) MIN_ROW_COUNT)"
    using loop by (simp add: blockRows_maxRow_def)
  have stable: "\<forall>v. filter (\<lambda>b. start b = v) ?order = filter (\<lambda>b. start b = v) blocks"
    by (simp add: sort_key_stable)
  have one_way: "\<not> overlap (?order ! j) (?order ! k)"
    if "j < k" "k < length ?order"
      "map_of rows (id_blk (?order ! j)) = map_of rows (id_blk (?order ! k))" for j k
  proof -
    have "?order ! j \<in> set (take k ?order)"
      using that(1,2) by (auto simp: in_set_conv_nth)
    with gr that show ?thesis
      by (auto simp: greedyRow_def)
  qed
  have sep: "\<not> overlap a b"
    if "a \<in> set blocks" "b \<in> set blocks" "a \<noteq> b"
      "map_of rows (id_blk a) = map_of rows (id_blk b)" for a b
  proof -
    from that(1,2) obtain j k where j: "j < length ?order" "?order ! j = a"
      and k: "k < length ?order" "?order ! k = b"
      by (metis in_set_conv_nth set_sort)
    with that(3) have "j \<noteq> k"
      by auto
    then have "j < k \<or> k < j"
      by arith
    then show ?thesis
    proof
      assume "j < k"
      from one_way [OF this k(1)] that(4) j k show ?thesis by simp
    next
      assume "k < j"
      from one_way [OF this j(1)] that(4) j k have "\<not> overlap b a" by simp
      then show ?thesis by (simp add: overlap_sym)
    qed
  qed
  from res keys gr stable sep show ?thesis
    by auto
qed

text \<open>The packing of the three example blocks: standup and lunch share row 0.\<close>

theorem row_packing_greedy_witness:
  "distinct (map id_blk packingExample) \<and>
   blockRows_maxRow packingExample = Inr ([(''standup'', 0), (''meeting'', 1), (''lunch'', 0)], 3) \<and>
   (\<exists>rows maxRow. blockRows_maxRow packingExample = Inr (rows, maxRow) \<and>
     sorted (map start (sort_key start packingExample)) \<and>
     (\<forall>v. filter (\<lambda>b. start b = v) (sort_key start packingExample)
        = filter (\<lambda>b. start b = v) packingExample) \<and>
     map fst rows = map id_blk (sort_key start packingExample) \<and>
     (\<forall>k<length packingExample.
        greedyRow rows (take k (sort_key start packingExample)) (sort_key start packingExample ! k)) \<and>
     (\<forall>a\<in>set packingExample. \<forall>b\<in>set packingExample.
        a \<noteq> b \<and> map_of rows (id_blk a) = map_of rows (id_blk b) \<longrightarrow> \<not> overlap a b))"
proof -
  have d: "distinct (map id_blk packingExample)"
    by (simp add: packingExample_def)
  from d packingExample_rows row_packing_greedy [OF d] show ?thesis
    by blast
qed

subsection \<open>The reported row count\<close>

text \<open>
  Claim C10. The packing of every snapshot returns. Let \<open>rs\<close> be the rows that the loop
  assigns to the blocks in the order of their starts: the row of each block is the least
  one that is free for it under the row map left by the blocks before it, and there is
  one such list only. The reported \<^verbatim>\<open>maxRow\<close> is the larger of 3 and one more than the
  highest of these rows, where the highest row of an empty snapshot is 0, the initial
  value of \<^verbatim>\<open>maxRowFound\<close>. The returned row map is the map left by all the blocks; when the
  ids are distinct it holds one entry for each block and the highest row can be read from
  it. For a snapshot of at most two blocks the reported count is 3.
\<close>

theorem rowCount_floor:
  "\<exists>rows maxRow rs. blockRows_maxRow blocks = Inr (rows, maxRow) \<and>
     length rs = length blocks \<and>
     (\<forall>k<length blocks.
        leastFree blocks (rowMapAt (sort_key start blocks) rs k) (sort_key start blocks ! k) (rs ! k)) \<and>
     (\<forall>rs'. length rs' = length blocks \<and>
        (\<forall>k<length blocks.
           leastFree blocks (rowMapAt (sort_key start blocks) rs' k) (sort_key start blocks ! k) (rs' ! k))
        \<longrightarrow> rs' = rs) \<and>
     map_of rows = rowMapAt (sort_key start blocks) rs (length blocks) \<and>
     maxRow = max (Max (insert 0 (set rs)) + 1) 3 \<and>
     (distinct (map id_blk blocks) \<longrightarrow> maxRow = max (Max (insert 0 (snd ` set rows)) + 1) 3) \<and>
     (length blocks \<le> 2 \<longrightarrow> maxRow = 3)"
proof -
  let ?order = "sort_key start blocks"
  from blockRows_maxRow_total [of blocks] obtain rows m
    where loop: "packLoop blocks ?order ([], 0) = Inr (rows, m)"
      and res: "blockRows_maxRow blocks = Inr (rows, max (m + 1) MIN_ROW_COUNT)"
      and le: "m \<le> length blocks - 1"
    by blast
  have "\<exists>rs1 rows' m'. length rs1 = length ?order \<and>
     packLoop blocks ?order ([], 0) = Inr (rows', m') \<and>
     map_of rows' = lastRows (map id_blk ([] @ ?order)) ([] @ rs1) \<and>
     m' = Max (insert 0 (set rs1)) \<and>
     (\<forall>k<length ?order.
        leastFree blocks (lastRows (map id_blk ([] @ take k ?order)) ([] @ take k rs1))
          (?order ! k) (rs1 ! k))"
    by (rule packLoop_assigned) (simp_all add: lookupOk_Nil lastRows_def)
  then obtain rs rows' m' where len0: "length rs = length ?order"
    and loop': "packLoop blocks ?order ([], 0) = Inr (rows', m')"
    and fin0: "map_of rows' = lastRows (map id_blk ([] @ ?order)) ([] @ rs)"
    and m0: "m' = Max (insert 0 (set rs))"
    and lf0: "\<forall>k<length ?order.
        leastFree blocks (lastRows (map id_blk ([] @ take k ?order)) ([] @ take k rs))
          (?order ! k) (rs ! k)"
    by blast
  from loop loop' have same: "rows' = rows" "m' = m"
    by simp_all
  have len: "length rs = length blocks"
    using len0 by simp
  have fin: "map_of rows = lastRows (map id_blk ?order) rs"
    using fin0 same by simp
  have m: "m = Max (insert 0 (set rs))"
    using m0 same by simp
  have lf: "\<forall>k<length blocks. leastFree blocks (lastRows (map id_blk (take k ?order)) (take k rs))
          (?order ! k) (rs ! k)"
    using lf0 by simp
  have lf': "\<forall>k<length blocks. leastFree blocks (rowMapAt ?order rs k) (?order ! k) (rs ! k)"
    using lf by (simp add: rowMapAt_def)
  have uniq: "\<forall>rs'. length rs' = length blocks \<and>
        (\<forall>k<length blocks. leastFree blocks (rowMapAt ?order rs' k) (?order ! k) (rs' ! k))
        \<longrightarrow> rs' = rs"
  proof (intro allI impI)
    fix rs'
    assume a: "length rs' = length blocks \<and>
        (\<forall>k<length blocks. leastFree blocks (rowMapAt ?order rs' k) (?order ! k) (rs' ! k))"
    from a have l': "length rs' = length blocks" ..
    from a have c': "\<forall>k<length blocks. leastFree blocks (rowMapAt ?order rs' k) (?order ! k) (rs' ! k)" ..
    from len l' lf' c' show "rs' = rs"
      by (rule assigned_unique)
  qed
  have fin': "map_of rows = rowMapAt ?order rs (length blocks)"
    using fin len by (simp add: rowMapAt_def)
  have count: "max (m + 1) MIN_ROW_COUNT = max (Max (insert 0 (set rs)) + 1) 3"
    by (simp add: m MIN_ROW_COUNT_def)
  have dist: "max (m + 1) MIN_ROW_COUNT = max (Max (insert 0 (snd ` set rows)) + 1) 3"
    if d: "distinct (map id_blk blocks)"
  proof -
    have d': "distinct (map id_blk ([] @ ?order))"
      using d by (simp add: distinct_ids_sort)
    have f: "\<forall>x\<in>set ([] @ ?order). find (\<lambda>b. id_blk b = id_blk x) blocks = Some x"
      using d by (simp add: find_id_distinct)
    from packLoop_greedy [OF d' f, of "[]" 0] loop have "m = Max (insert 0 (snd ` set rows))"
      by auto
    then show ?thesis
      by (simp add: MIN_ROW_COUNT_def)
  qed
  have small: "max (m + 1) MIN_ROW_COUNT = 3" if "length blocks \<le> 2"
    using that le by (simp add: MIN_ROW_COUNT_def)
  have dist': "distinct (map id_blk blocks) \<longrightarrow>
      max (m + 1) MIN_ROW_COUNT = max (Max (insert 0 (snd ` set rows)) + 1) 3"
    using dist by (rule impI)
  have small': "length blocks \<le> 2 \<longrightarrow> max (m + 1) MIN_ROW_COUNT = 3"
    using small by (rule impI)
  show ?thesis
    by (intro exI conjI) (rule res len lf' uniq fin' count dist' small')+
qed

text \<open>
  Four blocks that overlap one another take the rows 0 to 3 and four rows are reported;
  two overlapping blocks take rows 0 and 1 and three rows are reported. In the snapshot
  with a repeated id the rows assigned are 0, 1, 2, 3 and 0, and four rows are reported,
  although the highest row left in the row map is 2.
\<close>

theorem rowCount_floor_witness:
  "distinct (map id_blk fourBlocks) \<and> length twoBlocks \<le> 2 \<and>
   blockRows_maxRow fourBlocks = Inr ([(''a'', 0), (''b'', 1), (''c'', 2), (''d'', 3)], 4) \<and>
   blockRows_maxRow twoBlocks = Inr ([(''standup'', 0), (''meeting'', 1)], 3) \<and>
   blockRows_maxRow repeatedId = Inr ([(''a'', 0), (''b'', 1), (''c'', 2), (''x'', 0)], 4) \<and>
   (\<exists>rs. rs = [0, 1, 2, 3] \<and>
      (\<forall>k<length fourBlocks.
         leastFree fourBlocks (rowMapAt (sort_key start fourBlocks) rs k)
           (sort_key start fourBlocks ! k) (rs ! k)) \<and>
      (4::nat) = max (Max (insert 0 (set rs)) + 1) 3) \<and>
   (4::nat) = max (Max (insert 0 (snd ` set [(''a'', 0::nat), (''b'', 1), (''c'', 2), (''d'', 3)])) + 1) 3 \<and>
   (\<exists>rs. rs = [0, 1, 2, 3, 0] \<and>
      (\<forall>k<length repeatedId.
         leastFree repeatedId (rowMapAt (sort_key start repeatedId) rs k)
           (sort_key start repeatedId ! k) (rs ! k)) \<and>
      (4::nat) = max (Max (insert 0 (set rs)) + 1) 3) \<and>
   (3::nat) = max (Max (insert 0 (snd ` set [(''a'', 0::nat), (''b'', 1), (''c'', 2), (''x'', 0)])) + 1) 3"
proof -
  have d: "distinct (map id_blk fourBlocks)" and l: "length twoBlocks \<le> 2"
    by (simp_all add: fourBlocks_def twoBlocks_def)
  from rowCount_floor [of fourBlocks] obtain rs
    where "length rs = length fourBlocks"
      and c: "\<forall>k<length fourBlocks.
         leastFree fourBlocks (rowMapAt (sort_key start fourBlocks) rs k)
           (sort_key start fourBlocks ! k) (rs ! k)"
      and "map_of [(''a'', 0), (''b'', 1), (''c'', 2), (''d'', 3)]
        = rowMapAt (sort_key start fourBlocks) rs (length fourBlocks)"
      and n: "(4::nat) = max (Max (insert 0 (set rs)) + 1) 3"
    unfolding fourBlocks_rows by auto
  then have "rs = [0, 1, 2, 3]"
    by (simp only: fourBlocks_assigned)
  with c n have four: "\<exists>rs. rs = [0, 1, 2, 3] \<and>
      (\<forall>k<length fourBlocks.
         leastFree fourBlocks (rowMapAt (sort_key start fourBlocks) rs k)
           (sort_key start fourBlocks ! k) (rs ! k)) \<and>
      (4::nat) = max (Max (insert 0 (set rs)) + 1) 3"
    by blast
  from rowCount_floor [of repeatedId] obtain rs
    where "length rs = length repeatedId"
      and c: "\<forall>k<length repeatedId.
         leastFree repeatedId (rowMapAt (sort_key start repeatedId) rs k)
           (sort_key start repeatedId ! k) (rs ! k)"
      and "map_of [(''a'', 0), (''b'', 1), (''c'', 2), (''x'', 0)]
        = rowMapAt (sort_key start repeatedId) rs (length repeatedId)"
      and n: "(4::nat) = max (Max (insert 0 (set rs)) + 1) 3"
    unfolding repeatedId_rows by auto
  then have "rs = [0, 1, 2, 3, 0]"
    by (simp only: repeatedId_assigned)
  with c n have rep: "\<exists>rs. rs = [0, 1, 2, 3, 0] \<and>
      (\<forall>k<length repeatedId.
         leastFree repeatedId (rowMapAt (sort_key start repeatedId) rs k)
           (sort_key start repeatedId ! k) (rs ! k)) \<and>
      (4::nat) = max (Max (insert 0 (set rs)) + 1) 3"
    by blast
  from rowCount_floor [of twoBlocks] l
  have two: "blockRows_maxRow twoBlocks = Inr ([(''standup'', 0), (''meeting'', 1)], 3)"
    by (simp add: twoBlocks_rows)
  have e: "(4::nat) = max (Max (insert 0 (snd ` set [(''a'', 0::nat), (''b'', 1), (''c'', 2), (''d'', 3)])) + 1) 3"
    "(3::nat) = max (Max (insert 0 (snd ` set [(''a'', 0::nat), (''b'', 1), (''c'', 2), (''x'', 0)])) + 1) 3"
    by simp_all
  from d l fourBlocks_rows two repeatedId_rows four rep e show ?thesis
    by (intro conjI)
qed

section \<open>Time formatting\<close>

text \<open>
  \<^verbatim>\<open>formatTime\<close> prints \<^verbatim>\<open>hours.toString().padStart(2, "0")\<close>, a colon and the minutes in
  the same way. \<^verbatim>\<open>toString\<close> of an integral number is its decimal numeral, with a minus
  sign when negative; \<^verbatim>\<open>padStart\<close> pads on the left up to the target length and never
  cuts.
\<close>

definition digitChar :: "nat \<Rightarrow> char" where
  "digitChar d = ''0123456789'' ! d"

fun digits :: "nat \<Rightarrow> string" where
  "digits n = (if n < 10 then [digitChar n] else digits (n div 10) @ [digitChar (n mod 10)])"

declare digits.simps [simp del]

definition toString :: "int \<Rightarrow> string" where
  "toString n = (if n < 0 then CHR ''-'' # digits (nat (- n)) else digits (nat n))"

definition padStart :: "nat \<Rightarrow> char \<Rightarrow> string \<Rightarrow> string" where
  "padStart targetLength c s = replicate (targetLength - length s) c @ s"

definition formatTime :: "real \<Rightarrow> string" where
  "formatTime time =
     (let hours = \<lfloor>time\<rfloor>;
          minutes = round ((time - of_int hours) * 60)
      in padStart 2 CHR ''0'' (toString hours) @ '':'' @ padStart 2 CHR ''0'' (toString minutes))"

text \<open>The two decimal digits of a number below 100, the leading one possibly 0.\<close>

definition twoDigits :: "nat \<Rightarrow> string" where
  "twoDigits n = [digitChar (n div 10), digitChar (n mod 10)]"

lemma digits_small: "n < 10 \<Longrightarrow> digits n = [digitChar n]"
  by (simp add: digits.simps)

lemma digits_two: "10 \<le> n \<Longrightarrow> n < 100 \<Longrightarrow> digits n = [digitChar (n div 10), digitChar (n mod 10)]"
  by (subst digits.simps) (simp add: digits_small)

lemma pad_two: "n < 100 \<Longrightarrow> padStart 2 CHR ''0'' (toString (int n)) = twoDigits n"
  by (cases "n < 10") (simp_all add: padStart_def toString_def digits_small digits_two twoDigits_def digitChar_def)

lemma minutes_range:
  fixes t :: real
  shows "0 \<le> round ((t - of_int \<lfloor>t\<rfloor>) * 60)" and "round ((t - of_int \<lfloor>t\<rfloor>) * 60) \<le> 60"
    and "round ((t - of_int \<lfloor>t\<rfloor>) * 60) < 60 \<longleftrightarrow> t - of_int \<lfloor>t\<rfloor> < 119 / 120"
proof -
  have f: "0 \<le> t - of_int \<lfloor>t\<rfloor>" "t - of_int \<lfloor>t\<rfloor> < 1"
    by linarith+
  show "0 \<le> round ((t - of_int \<lfloor>t\<rfloor>) * 60)"
    unfolding round_def using f by (simp add: le_floor_iff)
  show "round ((t - of_int \<lfloor>t\<rfloor>) * 60) \<le> 60"
    unfolding round_def using f by (simp add: floor_le_iff)
  show "round ((t - of_int \<lfloor>t\<rfloor>) * 60) < 60 \<longleftrightarrow> t - of_int \<lfloor>t\<rfloor> < 119 / 120"
    unfolding round_def by (simp add: floor_less_iff) linarith
qed

lemma minutes_quarter:
  fixes k :: int
  shows "round ((of_int k / 4 - of_int \<lfloor>of_int k / 4 :: real\<rfloor>) * 60 :: real) = 15 * (k mod 4)"
proof -
  have fl: "\<lfloor>of_int k / 4 :: real\<rfloor> = k div 4"
    using floor_divide_of_int_eq [of k 4, where ?'a = real] by simp
  have "k = 4 * (k div 4) + k mod 4"
    by simp
  then have "(of_int k :: real) = 4 * of_int (k div 4) + of_int (k mod 4)"
    by (metis of_int_add of_int_mult of_int_numeral)
  then have "(of_int k / 4 - of_int (k div 4)) * 60 = (15 * of_int (k mod 4) :: real)"
    by (simp add: field_simps)
  then have "(of_int k / 4 - of_int (k div 4)) * 60 = (of_int (15 * (k mod 4)) :: real)"
    by simp
  then show ?thesis
    unfolding fl by (simp only: round_of_int)
qed

text \<open>
  Claim C5, as amended. For a time of day \<open>t\<close> with \<open>0 \<le> t < 24\<close>, \<^verbatim>\<open>formatTime\<close> prints the
  two digits of \<open>HH = floor t\<close> (which is \<open>floor t mod 24\<close>), a colon and the two digits of
  \<open>MM = round ((t - floor t) * 60)\<close>. \<open>MM\<close> is at most 60, and below 60 exactly when the
  fraction of the hour is below \<open>119/120\<close>; on the quarter-hour grid \<open>MM\<close> is 0, 15, 30 or
  45. Nothing is carried into \<open>HH\<close>.
\<close>

theorem formatTime_fields:
  assumes "0 \<le> t" and "t < 24"
  shows "formatTime t =
       twoDigits (nat \<lfloor>t\<rfloor>) @ '':'' @ twoDigits (nat (round ((t - of_int \<lfloor>t\<rfloor>) * 60))) \<and>
     0 \<le> \<lfloor>t\<rfloor> \<and> \<lfloor>t\<rfloor> < 24 \<and> \<lfloor>t\<rfloor> mod 24 = \<lfloor>t\<rfloor> \<and>
     0 \<le> round ((t - of_int \<lfloor>t\<rfloor>) * 60) \<and> round ((t - of_int \<lfloor>t\<rfloor>) * 60) \<le> 60 \<and>
     (round ((t - of_int \<lfloor>t\<rfloor>) * 60) < 60 \<longleftrightarrow> t - of_int \<lfloor>t\<rfloor> < 119 / 120) \<and>
     ((\<exists>k::int. t = of_int k / 4) \<longrightarrow> round ((t - of_int \<lfloor>t\<rfloor>) * 60) \<in> {0, 15, 30, 45})"
proof -
  let ?h = "\<lfloor>t\<rfloor>" and ?m = "round ((t - of_int \<lfloor>t\<rfloor>) * 60)"
  have h: "0 \<le> ?h" "?h < 24"
    using assms by (simp_all add: floor_less_iff)
  then have hmod: "?h mod 24 = ?h"
    by simp
  note m = minutes_range [of t]
  have hn: "nat ?h < 100" and hi: "int (nat ?h) = ?h"
    using h by linarith+
  have mn: "nat ?m < 100" and mi: "int (nat ?m) = ?m"
    using m(1,2) by linarith+
  have "padStart 2 CHR ''0'' (toString ?h) = twoDigits (nat ?h)"
    using pad_two [OF hn] by (simp only: hi)
  moreover have "padStart 2 CHR ''0'' (toString ?m) = twoDigits (nat ?m)"
    using pad_two [OF mn] by (simp only: mi)
  ultimately have fmt: "formatTime t = twoDigits (nat ?h) @ '':'' @ twoDigits (nat ?m)"
    by (simp add: formatTime_def Let_def)
  have q: "?m \<in> {0, 15, 30, 45}" if "\<exists>k::int. t = of_int k / 4"
  proof -
    from that obtain k :: int where k: "t = of_int k / 4" by blast
    have "k mod 4 \<in> {0, 1, 2, 3}"
      by (auto simp: mod_eq_0_iff_dvd) presburger
    then show ?thesis
      unfolding k minutes_quarter by auto
  qed
  from fmt h hmod m q show ?thesis
    by blast
qed

text \<open>A quarter past nine.\<close>

theorem formatTime_fields_witness:
  "(0::real) \<le> 37 / 4 \<and> (37 / 4 :: real) < 24 \<and> (\<exists>k::int. (37 / 4 :: real) = of_int k / 4) \<and>
   formatTime (37 / 4) = ''09:15'' \<and>
   round (((37 / 4 :: real) - of_int \<lfloor>37 / 4 :: real\<rfloor>) * 60) \<in> {0, 15, 30, 45 :: int}"
proof -
  have r: "(0::real) \<le> 37 / 4" "(37 / 4 :: real) < 24"
    by simp_all
  have k: "\<exists>k::int. (37 / 4 :: real) = of_int k / 4"
    by (rule exI [of _ 37]) simp
  have "formatTime (37 / 4) = ''09:15''"
    using formatTime_fields [OF r] by (simp add: twoDigits_def digitChar_def round_def)
  with r k formatTime_fields [OF r] show ?thesis
    by blast
qed

text \<open>
  Claim C5 as stated fails in the last half minute of an hour: at 23.995 the minutes
  round to 60 and the hour stays 23.
\<close>

theorem formatTime_no_carry:
  "(0::real) \<le> 4799 / 200 \<and> (4799 / 200 :: real) < 24 \<and> formatTime (4799 / 200) = ''23:60'' \<and>
   round (((4799 / 200 :: real) - of_int \<lfloor>4799 / 200 :: real\<rfloor>) * 60) = 60"
  by (simp add: formatTime_def Let_def toString_def padStart_def digits.simps digitChar_def round_def)

section \<open>Rendering of a block\<close>

text \<open>
  The component \<^verbatim>\<open>TimeBlock\<close>. \<^verbatim>\<open>renderBlock(start, end, isSecondPart)\<close> draws one
  rectangle for the block of the enclosing component in its row; the record below keeps
  the arguments, and the style and the parts of the rectangle are functions of them. The
  caption is the text shown while the label is not being edited.
\<close>

definition ROW_HEIGHT :: nat where
  "ROW_HEIGHT = 30"

definition TOP_MARGIN :: nat where
  "TOP_MARGIN = 30"

record RenderedBlock =
  rb_block :: TimeBlockData
  rb_row :: nat
  rb_start :: real
  rb_end :: real
  rb_isSecondPart :: bool

definition renderBlock :: "TimeBlockData \<Rightarrow> nat \<Rightarrow> real \<Rightarrow> real \<Rightarrow> bool \<Rightarrow> RenderedBlock" where
  "renderBlock block row segStart segEnd isSecondPart =
     \<lparr>rb_block = block, rb_row = row, rb_start = segStart, rb_end = segEnd,
      rb_isSecondPart = isSecondPart\<rparr>"

text \<open>
  \<^verbatim>\<open>left\<close> and \<^verbatim>\<open>width\<close> in percent of the timeline, \<^verbatim>\<open>top\<close> in pixels, the caption
  \<^verbatim>\<open>{block.label} ({formatTime(block.start)}-{formatTime(block.end)}){isSecondPart && " (cont.)"}\<close>
  and the delete button, which is drawn when \<^verbatim>\<open>!isSecondPart\<close>.
\<close>

definition style_left :: "RenderedBlock \<Rightarrow> real" where
  "style_left rb = (rb_start rb / 24) * 100"

definition style_width :: "RenderedBlock \<Rightarrow> real" where
  "style_width rb = ((rb_end rb - rb_start rb) / 24) * 100"

definition style_top :: "RenderedBlock \<Rightarrow> nat" where
  "style_top rb = TOP_MARGIN + rb_row rb * ROW_HEIGHT"

definition caption :: "RenderedBlock \<Rightarrow> string" where
  "caption rb =
     label (rb_block rb) @ '' ('' @ formatTime (start (rb_block rb)) @ ''-''
       @ formatTime (end_blk (rb_block rb)) @ '')''
       @ (if rb_isSecondPart rb then '' (cont.)'' else '''')"

definition deleteButton :: "RenderedBlock \<Rightarrow> bool" where
  "deleteButton rb \<longleftrightarrow> \<not> rb_isSecondPart rb"

text \<open>
  \<^verbatim>\<open>spansMidnight = block.start > block.end\<close>; a block that spans midnight is drawn as
  \<^verbatim>\<open>renderBlock(block.start, 24)\<close> and \<^verbatim>\<open>renderBlock(0, block.end, true)\<close>, any other block as
  \<^verbatim>\<open>renderBlock(block.start, block.end)\<close>.
\<close>

definition TimeBlock :: "TimeBlockData \<Rightarrow> nat \<Rightarrow> RenderedBlock list" where
  "TimeBlock block row =
     (let spansMidnight = start block > end_blk block
      in if spansMidnight
         then [renderBlock block row (start block) 24 False,
               renderBlock block row 0 (end_blk block) True]
         else [renderBlock block row (start block) (end_blk block) False])"

text \<open>The two blocks of \<^verbatim>\<open>defaultBlocks\<close> in \<^verbatim>\<open>ScheduleManager\<close>.\<close>

definition sleepBlock :: TimeBlockData where
  "sleepBlock = \<lparr>id_blk = ''sleep'', start = 23, end_blk = 7, label = ''Sleep'',
     color = ''#F3E6FF'', calendarId = ''personal''\<rparr>"

definition workBlock :: TimeBlockData where
  "workBlock = \<lparr>id_blk = ''work-block'', start = 9, end_blk = 17, label = ''Work Hours'',
     color = ''#E6F3FF'', calendarId = ''work''\<rparr>"

definition defaultBlocks :: "TimeBlockData list" where
  "defaultBlocks = [workBlock, sleepBlock]"

section \<open>The store\<close>

text \<open>
  \<^verbatim>\<open>Partial<TimeBlockData>\<close>: each field is present or absent. The callbacks that
  \<^verbatim>\<open>ScheduleManager\<close> passes to the timeline are functions from the previous list of
  blocks to the next one, as their \<^verbatim>\<open>setBlocks(prev => ...)\<close> are.
\<close>

record Updates =
  id_upd :: "string option"
  start_upd :: "real option"
  end_upd :: "real option"
  label_upd :: "string option"
  color_upd :: "string option"
  calendarId_upd :: "string option"

definition noUpdates :: Updates where
  "noUpdates = \<lparr>id_upd = None, start_upd = None, end_upd = None, label_upd = None,
     color_upd = None, calendarId_upd = None\<rparr>"

text \<open>\<^verbatim>\<open>{ ...block, ...updates }\<close>: a field of the update that is present replaces the block's.\<close>

definition orElse :: "'a option \<Rightarrow> 'a \<Rightarrow> 'a" where
  "orElse v d = (case v of None \<Rightarrow> d | Some x \<Rightarrow> x)"

definition applyUpdates :: "TimeBlockData \<Rightarrow> Updates \<Rightarrow> TimeBlockData" where
  "applyUpdates block updates =
     \<lparr>id_blk = orElse (id_upd updates) (id_blk block),
      start = orElse (start_upd updates) (start block),
      end_blk = orElse (end_upd updates) (end_blk block),
      label = orElse (label_upd updates) (label block),
      color = orElse (color_upd updates) (color block),
      calendarId = orElse (calendarId_upd updates) (calendarId block)\<rparr>"

definition onUpdateBlock :: "string \<Rightarrow> Updates \<Rightarrow> TimeBlockData list \<Rightarrow> TimeBlockData list" where
  "onUpdateBlock i updates prev =
     map (\<lambda>block. if id_blk block = i then applyUpdates block updates else block) prev"

definition onDeleteBlock :: "string \<Rightarrow> TimeBlockData list \<Rightarrow> TimeBlockData list" where
  "onDeleteBlock i prev = filter (\<lambda>block. id_blk block \<noteq> i) prev"

section \<open>Gestures\<close>

text \<open>
  \<^verbatim>\<open>DragState\<close>; the value \<^verbatim>\<open>null\<close> of \<^verbatim>\<open>type\<close> and of \<^verbatim>\<open>blockId\<close> is \<open>None\<close>.
\<close>

datatype dragType = move | resize_start | resize_end

record DragState =
  type :: "dragType option"
  blockId :: "string option"
  initialX :: real
  initialStart :: real
  initialEnd :: real

definition noDrag :: DragState where
  "noDrag = \<lparr>type = None, blockId = None, initialX = 0, initialStart = 0, initialEnd = 0\<rparr>"

text \<open>
  The mutation computed in the animation-frame callback of \<^verbatim>\<open>handleMouseMove\<close> from the
  drag state, the block found in the snapshot and the time shift. A move reads the
  duration from the block of the snapshot; the branch for a resize serves every type
  that is not \<^verbatim>\<open>"move"\<close>.

  The source computes in binary64. In a move the duration is added back to a start
  that need not be on the grid, and for a block that the picker has put off the grid the
  rounding of that sum can decide between two quarter hours. The function \<open>fl\<close> stands
  for the rounding of the machine at the two differences and the two sums of a move:
  \<open>nearest53\<close>, defined below, is the rounding of binary64, and the identity is exact
  arithmetic. Multiplying and dividing by 4 and \<^verbatim>\<open>Math.round\<close> are exact in binary64. The
  clamps of a resize are written with exact sums.
\<close>

definition proposedUpdates ::
  "(real \<Rightarrow> real) \<Rightarrow> DragState \<Rightarrow> TimeBlockData \<Rightarrow> real \<Rightarrow> Updates" where
  "proposedUpdates fl ds block timeShift =
     (if type ds = Some move then
        (let duration = fl (end_blk block - start block);
             newStart = max 0 (min (fl (24 - duration)) (fl (initialStart ds + timeShift)))
         in noUpdates\<lparr>start_upd := Some (of_int (round (newStart * 4)) / 4),
              end_upd := Some (of_int (round (fl (newStart + duration) * 4)) / 4)\<rparr>)
      else
        (let v = (if type ds = Some resize_start
                  then max 0 (min (end_blk block - 0.25) (initialStart ds + timeShift))
                  else max (start block + 0.25) (min 24 (initialEnd ds + timeShift)))
         in if type ds = Some resize_start
            then noUpdates\<lparr>start_upd := Some (of_int (round (v * 4)) / 4)\<rparr>
            else noUpdates\<lparr>end_upd := Some (of_int (round (v * 4)) / 4)\<rparr>))"

section \<open>The timeline and its events\<close>

text \<open>
  The state of one timeline together with the store of its parent:
  \<^item> \<open>blocks\<close> is the state \<^verbatim>\<open>blocks\<close> of \<^verbatim>\<open>ScheduleManager\<close>; the timeline of calendar
    \<open>cal\<close> receives the blocks of that calendar;
  \<^item> \<open>frameCallbacks\<close> holds the callbacks passed to \<^verbatim>\<open>requestAnimationFrame\<close> that have
    not run yet, each with the drag state, the block and the shift it closed over;
  \<^item> \<open>pendingUpdate\<close> holds the arguments of the last call of \<^verbatim>\<open>debouncedUpdate\<close> that has
    not been delivered;
  \<^item> \<open>updateCalls\<close> records every call of \<^verbatim>\<open>onUpdateBlock\<close>, in order;
  \<^item> \<open>selectedBlock\<close> and \<open>picker\<close> are the block handed to \<^verbatim>\<open>TimePickerModal\<close> and the
    four numbers of its state.

  Every handler sees the state left by the event before it: rendering and effects are
  complete between two events. Time is not measured: the event \<open>DebounceTimer\<close> is the
  expiry of the 16 ms timer and \<open>AnimationFrame\<close> is the next frame, whenever they come.
  Creating a block, which draws its id from the clock, is not part of the model.
\<close>

record PickerState =
  startHour :: int
  startMinute :: int
  endHour :: int
  endMinute :: int

record TimelineState =
  blocks :: "TimeBlockData list"
  dragState :: DragState
  frameCallbacks :: "(DragState \<times> TimeBlockData \<times> real) list"
  pendingUpdate :: "(string \<times> Updates) option"
  updateCalls :: "(string \<times> Updates) list"
  selectedBlock :: "TimeBlockData option"
  picker :: PickerState

definition timelineBlocks :: "string \<Rightarrow> TimelineState \<Rightarrow> TimeBlockData list" where
  "timelineBlocks cal s = filter (\<lambda>block. calendarId block = cal) (blocks s)"

definition callUpdateBlock :: "string \<Rightarrow> Updates \<Rightarrow> TimelineState \<Rightarrow> TimelineState" where
  "callUpdateBlock i updates s =
     s\<lparr>blocks := onUpdateBlock i updates (blocks s), updateCalls := updateCalls s @ [(i, updates)]\<rparr>"

text \<open>\<^verbatim>\<open>handleStartDrag\<close>: captures the pointer position and the block's start and end.\<close>

definition handleStartDrag ::
  "string \<Rightarrow> TimelineState \<Rightarrow> dragType \<Rightarrow> string \<Rightarrow> real \<Rightarrow> TimelineState" where
  "handleStartDrag cal s ty i clientX =
     (case find (\<lambda>b. id_blk b = i) (timelineBlocks cal s) of
        None \<Rightarrow> s
      | Some block \<Rightarrow>
          s\<lparr>dragState := \<lparr>type = Some ty, blockId = Some i, initialX = clientX,
               initialStart = start block, initialEnd = end_blk block\<rparr>\<rparr>)"

text \<open>
  \<^verbatim>\<open>handleMouseMove\<close>: returns at once without a gesture (an empty id is falsy too) or when
  the block is not in the snapshot; otherwise it computes the shift and defers the rest
  to the next animation frame. The timeline is mounted, so \<^verbatim>\<open>timelineRef.current\<close> is set.
  A timeline of width 0, for which the shift is not a finite number, is outside the
  model: the result is \<open>None\<close>.
\<close>

definition handleMouseMove ::
  "string \<Rightarrow> TimelineState \<Rightarrow> real \<Rightarrow> real \<Rightarrow> TimelineState option" where
  "handleMouseMove cal s clientX width =
     (if type (dragState s) = None \<or> blockId (dragState s) = None \<or> blockId (dragState s) = Some ''''
      then Some s
      else case find (\<lambda>b. Some (id_blk b) = blockId (dragState s)) (timelineBlocks cal s) of
        None \<Rightarrow> Some s
      | Some block \<Rightarrow>
          if width = 0 then None
          else Some (s\<lparr>frameCallbacks := frameCallbacks s @
                 [(dragState s, block, ((clientX - initialX (dragState s)) / width) * 24)]\<rparr>))"

text \<open>
  Modelled from the spec: \<^verbatim>\<open>debounce\<close> of lodash, which is imported and not part of the
  sources. With the wait of 16 ms and no other option, a call keeps its arguments in
  place of those of an earlier call not yet delivered, and the function is invoked with
  the arguments kept once the timer expires. The source makes a new debounced function
  whenever the parent has rendered, that is after each write to the store, and a call
  pending in an older one is still delivered by its own timer; the model keeps one
  pending call, which is the same as long as \<^verbatim>\<open>debouncedUpdate\<close> is not called between a write
  to the store and the delivery of a call that was pending at that write.
\<close>

definition debouncedUpdate :: "string \<Rightarrow> Updates \<Rightarrow> TimelineState \<Rightarrow> TimelineState" where
  "debouncedUpdate i updates s = s\<lparr>pendingUpdate := Some (i, updates)\<rparr>"

definition debounceTimer :: "TimelineState \<Rightarrow> TimelineState" where
  "debounceTimer s =
     (case pendingUpdate s of
        None \<Rightarrow> s
      | Some (i, updates) \<Rightarrow> callUpdateBlock i updates (s\<lparr>pendingUpdate := None\<rparr>))"

text \<open>
  The body of the callback, and one animation frame, which runs the callbacks in order.
  \<open>fl\<close> is the rounding of the machine passed on to the mutation of a move.
\<close>

definition frameCallback ::
  "(real \<Rightarrow> real) \<Rightarrow> DragState \<times> TimeBlockData \<times> real \<Rightarrow> TimelineState \<Rightarrow> TimelineState" where
  "frameCallback fl cb s =
     (case cb of (ds, block, timeShift) \<Rightarrow>
        debouncedUpdate (id_blk block) (proposedUpdates fl ds block timeShift) s)"

definition animationFrame :: "(real \<Rightarrow> real) \<Rightarrow> TimelineState \<Rightarrow> TimelineState" where
  "animationFrame fl s = (fold (frameCallback fl) (frameCallbacks s) s)\<lparr>frameCallbacks := []\<rparr>"

text \<open>
  \<^verbatim>\<open>handleMouseUp\<close>, which is registered while \<^verbatim>\<open>dragState.type\<close> is set, resets the drag
  state and does nothing else.
\<close>

definition handleMouseUp :: "TimelineState \<Rightarrow> TimelineState" where
  "handleMouseUp s = (if type (dragState s) \<noteq> None then s\<lparr>dragState := noDrag\<rparr> else s)"

text \<open>
  \<^verbatim>\<open>handleDelete\<close> and \<^verbatim>\<open>handleUpdateLabel\<close>. The state \<^verbatim>\<open>editingBlock\<close>, which only
  selects what is drawn, is left out.
\<close>

definition handleDelete :: "string \<Rightarrow> TimelineState \<Rightarrow> TimelineState" where
  "handleDelete i s = s\<lparr>blocks := onDeleteBlock i (blocks s)\<rparr>"

definition handleUpdateLabel :: "string \<Rightarrow> string \<Rightarrow> TimelineState \<Rightarrow> TimelineState" where
  "handleUpdateLabel i txt s = callUpdateBlock i (noUpdates\<lparr>label_upd := Some txt\<rparr>) s"

text \<open>
  \<^verbatim>\<open>TimePickerModal\<close>. When it receives a block its effect sets the four fields;
  \<^verbatim>\<open>start % 1\<close> is the remainder of the division truncated towards zero. A field changes
  by typing a number, accepted when it lies between 0 and the maximum of the field, or by
  one of the two stepper buttons, which wrap around. The block that is clicked to open
  the dialog is named by its id.
\<close>

definition rem1 :: "real \<Rightarrow> real" where
  "rem1 x = (if 0 \<le> x then x - of_int \<lfloor>x\<rfloor> else x - of_int \<lceil>x\<rceil>)"

definition pickerOpen :: "TimeBlockData \<Rightarrow> PickerState" where
  "pickerOpen block =
     \<lparr>startHour = \<lfloor>start block\<rfloor>, startMinute = round (rem1 (start block) * 60),
      endHour = \<lfloor>end_blk block\<rfloor>, endMinute = round (rem1 (end_blk block) * 60)\<rparr>"

definition handleTimeEdit :: "string \<Rightarrow> TimelineState \<Rightarrow> string \<Rightarrow> TimelineState" where
  "handleTimeEdit cal s i =
     (case find (\<lambda>b. id_blk b = i) (timelineBlocks cal s) of
        None \<Rightarrow> s
      | Some block \<Rightarrow> s\<lparr>selectedBlock := Some block, picker := pickerOpen block\<rparr>)"

datatype pickerField = StartHour | StartMinute | EndHour | EndMinute

definition fieldMax :: "pickerField \<Rightarrow> int" where
  "fieldMax f = (case f of StartHour \<Rightarrow> 23 | EndHour \<Rightarrow> 23 | StartMinute \<Rightarrow> 59 | EndMinute \<Rightarrow> 59)"

definition getField :: "pickerField \<Rightarrow> PickerState \<Rightarrow> int" where
  "getField f p = (case f of StartHour \<Rightarrow> startHour p | StartMinute \<Rightarrow> startMinute p
     | EndHour \<Rightarrow> endHour p | EndMinute \<Rightarrow> endMinute p)"

definition setField :: "pickerField \<Rightarrow> int \<Rightarrow> PickerState \<Rightarrow> PickerState" where
  "setField f v p = (case f of StartHour \<Rightarrow> p\<lparr>startHour := v\<rparr> | StartMinute \<Rightarrow> p\<lparr>startMinute := v\<rparr>
     | EndHour \<Rightarrow> p\<lparr>endHour := v\<rparr> | EndMinute \<Rightarrow> p\<lparr>endMinute := v\<rparr>)"

definition inputChange :: "pickerField \<Rightarrow> int \<Rightarrow> PickerState \<Rightarrow> PickerState" where
  "inputChange f val p = (if val \<ge> 0 \<and> val \<le> fieldMax f then setField f val p else p)"

definition stepDown :: "pickerField \<Rightarrow> PickerState \<Rightarrow> PickerState" where
  "stepDown f p = setField f (if getField f p = 0 then fieldMax f else getField f p - 1) p"

definition stepUp :: "pickerField \<Rightarrow> PickerState \<Rightarrow> PickerState" where
  "stepUp f p = setField f (if getField f p = fieldMax f then 0 else getField f p + 1) p"

text \<open>
  \<^verbatim>\<open>handleSave\<close> calls \<^verbatim>\<open>onUpdateTime(block.id, newStart, newEnd)\<close> and closes the dialog;
  the timeline's \<^verbatim>\<open>onUpdateTime\<close> is \<^verbatim>\<open>onUpdateBlock(id, { start, end })\<close> followed by
  \<^verbatim>\<open>setSelectedBlock(null)\<close>.
\<close>

definition onUpdateTime :: "string \<Rightarrow> real \<Rightarrow> real \<Rightarrow> TimelineState \<Rightarrow> TimelineState" where
  "onUpdateTime i newStart newEnd s =
     (callUpdateBlock i (noUpdates\<lparr>start_upd := Some newStart, end_upd := Some newEnd\<rparr>) s)
       \<lparr>selectedBlock := None\<rparr>"

definition handleSave :: "TimelineState \<Rightarrow> TimelineState" where
  "handleSave s =
     (case selectedBlock s of
        None \<Rightarrow> s
      | Some block \<Rightarrow>
          (let newStart = of_int (startHour (picker s)) + of_int (startMinute (picker s)) / 60;
               newEnd = of_int (endHour (picker s)) + of_int (endMinute (picker s)) / 60
           in (onUpdateTime (id_blk block) newStart newEnd s)\<lparr>selectedBlock := None\<rparr>))"

text \<open>
  The events of a timeline and the handler of each, for the rounding \<open>fl\<close> of the
  machine. The traces below are run in exact arithmetic, with the identity for \<open>fl\<close>.
\<close>

datatype event =
    StartDrag dragType string real
  | MouseMove real real
  | MouseUp
  | AnimationFrame
  | DebounceTimer
  | Delete string
  | UpdateLabel string string
  | TimeEdit string
  | PickerInput pickerField int
  | PickerStepDown pickerField
  | PickerStepUp pickerField
  | PickerSave

fun step ::
  "(real \<Rightarrow> real) \<Rightarrow> string \<Rightarrow> TimelineState \<Rightarrow> event \<Rightarrow> TimelineState option" where
  "step fl cal s (StartDrag ty i clientX) = Some (handleStartDrag cal s ty i clientX)"
| "step fl cal s (MouseMove clientX width) = handleMouseMove cal s clientX width"
| "step fl cal s MouseUp = Some (handleMouseUp s)"
| "step fl cal s AnimationFrame = Some (animationFrame fl s)"
| "step fl cal s DebounceTimer = Some (debounceTimer s)"
| "step fl cal s (Delete i) = Some (handleDelete i s)"
| "step fl cal s (UpdateLabel i txt) = Some (handleUpdateLabel i txt s)"
| "step fl cal s (TimeEdit i) = Some (handleTimeEdit cal s i)"
| "step fl cal s (PickerInput f val) = Some (s\<lparr>picker := inputChange f val (picker s)\<rparr>)"
| "step fl cal s (PickerStepDown f) = Some (s\<lparr>picker := stepDown f (picker s)\<rparr>)"
| "step fl cal s (PickerStepUp f) = Some (s\<lparr>picker := stepUp f (picker s)\<rparr>)"
| "step fl cal s PickerSave = Some (handleSave s)"

fun run ::
  "(real \<Rightarrow> real) \<Rightarrow> string \<Rightarrow> TimelineState \<Rightarrow> event list \<Rightarrow> TimelineState option" where
  "run fl cal s [] = Some s"
| "run fl cal s (e # es) = (case step fl cal s e of None \<Rightarrow> None | Some s' \<Rightarrow> run fl cal s' es)"

definition initialState :: "TimeBlockData list \<Rightarrow> TimelineState" where
  "initialState bs =
     \<lparr>blocks = bs, dragState = noDrag, frameCallbacks = [], pendingUpdate = None,
      updateCalls = [], selectedBlock = None,
      picker = \<lparr>startHour = 0, startMinute = 0, endHour = 0, endMinute = 0\<rparr>\<rparr>"

text \<open>The definitions that the evaluation of a trace unfolds.\<close>

lemmas run_defs = initialState_def defaultBlocks_def workBlock_def sleepBlock_def handleStartDrag_def
  handleMouseMove_def handleMouseUp_def animationFrame_def debounceTimer_def handleDelete_def
  frameCallback_def debouncedUpdate_def proposedUpdates_def timelineBlocks_def noDrag_def
  noUpdates_def callUpdateBlock_def onUpdateBlock_def onDeleteBlock_def applyUpdates_def orElse_def
  handleTimeEdit_def handleSave_def onUpdateTime_def pickerOpen_def rem1_def inputChange_def
  setField_def getField_def fieldMax_def Let_def round_def

section \<open>The vocabulary of the specification\<close>

text \<open>
  The vocabulary of the specification. \<open>clamp x lo hi\<close> is written as the source
  writes it, \<^verbatim>\<open>Math.max(lo, Math.min(hi, x))\<close>, and \<open>roundQuarter\<close> is the source's
  \<^verbatim>\<open>Math.round(x * 4) / 4\<close>. A time is quantized when rounding leaves it as it is, that is
  when it is a multiple of a quarter of an hour.
\<close>

definition clamp :: "real \<Rightarrow> real \<Rightarrow> real \<Rightarrow> real" where
  "clamp x lo hi = max lo (min hi x)"

definition roundQuarter :: "real \<Rightarrow> real" where
  "roundQuarter x = of_int (round (x * 4)) / 4"

definition quantized :: "real \<Rightarrow> bool" where
  "quantized t \<longleftrightarrow> roundQuarter t = t"

text \<open>
  The rule for a move in the words of the specification: the duration is that of the
  origin captured when the gesture started. Its sums and differences are rounded by
  \<open>fl\<close> as those of the source are.
\<close>

definition specMove :: "(real \<Rightarrow> real) \<Rightarrow> real \<Rightarrow> real \<Rightarrow> real \<Rightarrow> real \<times> real" where
  "specMove fl originStart originEnd timeShift =
     (let dur = fl (originEnd - originStart);
          newStart = clamp (fl (originStart + timeShift)) 0 (fl (24 - dur));
          newEnd = fl (newStart + dur)
      in (roundQuarter newStart, roundQuarter newEnd))"

text \<open>
  What the theorems on a move use of the rounding of the machine: it is monotone, and
  it leaves a multiple of a quarter of an hour of at most 32 as it is. The rounding of
  binary64 has both properties, and so has exact arithmetic; both are proved below.
\<close>

definition rounding :: "(real \<Rightarrow> real) \<Rightarrow> bool" where
  "rounding fl \<longleftrightarrow> mono fl \<and> (\<forall>x. quantized x \<and> \<bar>x\<bar> \<le> 32 \<longrightarrow> fl x = x)"

lemma quantized_iff: "quantized t \<longleftrightarrow> (\<exists>k::int. t = of_int k / 4)"
proof
  assume "quantized t"
  then have "t = of_int (round (t * 4)) / 4"
    by (simp add: quantized_def roundQuarter_def)
  then show "\<exists>k::int. t = of_int k / 4" ..
next
  assume "\<exists>k::int. t = of_int k / 4"
  then obtain k :: int where "t = of_int k / 4" ..
  then show "quantized t"
    by (simp add: quantized_def roundQuarter_def)
qed


lemma roundQuarter_add:
  assumes "quantized d"
  shows "roundQuarter (x + d) = roundQuarter x + d"
proof -
  from assms obtain k :: int where d: "d = of_int k / 4"
    by (auto simp: quantized_iff)
  have "round ((x + d) * 4) = round (x * 4) + k"
    unfolding round_def d by (simp add: algebra_simps)
  then show ?thesis
    by (simp add: roundQuarter_def d add_divide_distrib)
qed



section \<open>The rounding of the machine\<close>

text \<open>
  The numbers of the source are binary64 numbers, and the result of a sum or a difference
  is the exact result rounded to the nearest number with a significand of 53 bits, a tie
  going to the even significand. \<open>nearest53\<close> is this rounding, for the magnitudes at
  which binary64 neither overflows nor is subnormal; the times of a day and their sums
  lie far inside. \<open>exponent x\<close> is the power of two at or below \<open>\<bar>x\<bar>\<close>, and \<open>ulp x\<close> the
  distance of the numbers with 53 bits around \<open>x\<close>.
\<close>

definition roundEven :: "real \<Rightarrow> int" where
  "roundEven y =
     (if y - of_int \<lfloor>y\<rfloor> < 1 / 2 then \<lfloor>y\<rfloor>
      else if 1 / 2 < y - of_int \<lfloor>y\<rfloor> then \<lfloor>y\<rfloor> + 1
      else if even \<lfloor>y\<rfloor> then \<lfloor>y\<rfloor> else \<lfloor>y\<rfloor> + 1)"

definition exponent :: "real \<Rightarrow> int" where
  "exponent x = \<lfloor>log 2 \<bar>x\<bar>\<rfloor>"

definition ulp :: "real \<Rightarrow> real" where
  "ulp x = 2 powr (of_int (exponent x) - 52)"

definition nearest53 :: "real \<Rightarrow> real" where
  "nearest53 x = (if x = 0 then 0 else of_int (roundEven (x / ulp x)) * ulp x)"

lemma roundEven_int: "roundEven (of_int k) = k"
  by (simp add: roundEven_def)

lemma roundEven_bounds: "of_int (roundEven y) \<le> y + 1 / 2" "y - 1 / 2 \<le> of_int (roundEven y)"
  unfolding roundEven_def by (auto; linarith)+

lemma roundEven_mono:
  assumes "x \<le> y"
  shows "roundEven x \<le> roundEven y"
proof (cases "\<lfloor>x\<rfloor> = \<lfloor>y\<rfloor>")
  case True
  with assms show ?thesis
    unfolding roundEven_def by auto
next
  case False
  with assms have "\<lfloor>x\<rfloor> + 1 \<le> \<lfloor>y\<rfloor>"
    using floor_mono [of x y] by linarith
  moreover have "roundEven x \<le> \<lfloor>x\<rfloor> + 1" "\<lfloor>y\<rfloor> \<le> roundEven y"
    unfolding roundEven_def by auto
  ultimately show ?thesis
    by linarith
qed

lemma binade:
  assumes "x \<noteq> 0"
  shows "2 powr of_int (exponent x) \<le> \<bar>x\<bar>" "\<bar>x\<bar> < 2 powr (of_int (exponent x) + 1)"
proof -
  have p: "0 < \<bar>x\<bar>" using assms by simp
  have "of_int (exponent x) \<le> log 2 \<bar>x\<bar>"
    by (simp add: exponent_def)
  then show "2 powr of_int (exponent x) \<le> \<bar>x\<bar>"
    using p by (simp add: le_log_iff)
  have "log 2 \<bar>x\<bar> < of_int (exponent x) + 1"
    unfolding exponent_def by linarith
  then show "\<bar>x\<bar> < 2 powr (of_int (exponent x) + 1)"
    using p by (simp add: log_less_iff)
qed

lemma exponent_eq:
  assumes "2 powr of_int e \<le> \<bar>x\<bar>" "\<bar>x\<bar> < 2 powr (of_int e + 1)"
  shows "exponent x = e"
proof -
  have p: "0 < \<bar>x\<bar>"
  proof -
    have "0 < 2 powr (of_int e :: real)" by simp
    with assms(1) show ?thesis by linarith
  qed
  have "of_int e \<le> log 2 \<bar>x\<bar>"
    using assms(1) p by (simp add: le_log_iff)
  moreover have "log 2 \<bar>x\<bar> < of_int e + 1"
    using assms(2) p by (simp add: log_less_iff)
  ultimately show ?thesis
    unfolding exponent_def by linarith
qed

lemma ulp_pos: "0 < ulp x"
  by (simp add: ulp_def)

lemma ulp_scale: "2 ^ 52 * ulp x = 2 powr of_int (exponent x)" "2 ^ 53 * ulp x = 2 powr (of_int (exponent x) + 1)"
proof -
  have p: "2 powr (52::real) = 2 ^ 52" "2 powr (53::real) = 2 ^ 53"
    by simp_all
  have "2 powr (52 + (of_int (exponent x) - 52)) = 2 powr (52::real) * 2 powr (of_int (exponent x) - 52)"
    by (rule powr_add)
  moreover have "52 + (of_int (exponent x) - 52) = (of_int (exponent x) :: real)"
    by simp
  ultimately show "2 ^ 52 * ulp x = 2 powr of_int (exponent x)"
    by (simp only: ulp_def p)
  have "2 powr (53 + (of_int (exponent x) - 52)) = 2 powr (53::real) * 2 powr (of_int (exponent x) - 52)"
    by (rule powr_add)
  moreover have "53 + (of_int (exponent x) - 52) = (of_int (exponent x) + 1 :: real)"
    by simp
  ultimately show "2 ^ 53 * ulp x = 2 powr (of_int (exponent x) + 1)"
    by (simp only: ulp_def p)
qed

lemma scaled_bounds:
  assumes "x \<noteq> 0"
  shows "2 ^ 52 * ulp x \<le> \<bar>x\<bar>" "\<bar>x\<bar> < 2 ^ 53 * ulp x"
  using binade [OF assms] by (simp_all only: ulp_scale)

lemma scaled_round:
  assumes "a * ulp x \<le> t" "t \<le> b * ulp x"
  shows "of_int a * ulp x \<le> of_int (roundEven (t / ulp x)) * ulp x"
    "of_int (roundEven (t / ulp x)) * ulp x \<le> of_int b * ulp x"
proof -
  from assms have "of_int a \<le> t / ulp x" "t / ulp x \<le> of_int b"
    using ulp_pos [of x] by (simp_all add: field_simps)
  then have "roundEven (of_int a) \<le> roundEven (t / ulp x)"
    "roundEven (t / ulp x) \<le> roundEven (of_int b)"
    by (simp_all only: roundEven_mono)
  then have "a \<le> roundEven (t / ulp x)" "roundEven (t / ulp x) \<le> b"
    by (simp_all only: roundEven_int)
  then have "(of_int a :: real) \<le> of_int (roundEven (t / ulp x))"
    "(of_int (roundEven (t / ulp x)) :: real) \<le> of_int b"
    by simp_all
  then show "of_int a * ulp x \<le> of_int (roundEven (t / ulp x)) * ulp x"
    "of_int (roundEven (t / ulp x)) * ulp x \<le> of_int b * ulp x"
    using ulp_pos [of x] by simp_all
qed

lemma nearest53_pos:
  assumes "0 < x"
  shows "2 powr of_int (exponent x) \<le> nearest53 x" "nearest53 x \<le> 2 powr (of_int (exponent x) + 1)"
proof -
  from assms have nz: "x \<noteq> 0" and ax: "\<bar>x\<bar> = x" by simp_all
  from scaled_bounds [OF nz] have "of_int (2 ^ 52) * ulp x \<le> x" "x \<le> of_int (2 ^ 53) * ulp x"
    unfolding ax by simp_all
  from scaled_round [OF this]
  have "2 ^ 52 * ulp x \<le> of_int (roundEven (x / ulp x)) * ulp x"
    "of_int (roundEven (x / ulp x)) * ulp x \<le> 2 ^ 53 * ulp x"
    by simp_all
  then have "2 powr of_int (exponent x) \<le> of_int (roundEven (x / ulp x)) * ulp x"
    "of_int (roundEven (x / ulp x)) * ulp x \<le> 2 powr (of_int (exponent x) + 1)"
    by (simp_all only: ulp_scale)
  then show "2 powr of_int (exponent x) \<le> nearest53 x"
    "nearest53 x \<le> 2 powr (of_int (exponent x) + 1)"
    using nz by (simp_all only: nearest53_def if_False)
qed

lemma nearest53_neg:
  assumes "x < 0"
  shows "nearest53 x \<le> - (2 powr of_int (exponent x))" "- (2 powr (of_int (exponent x) + 1)) \<le> nearest53 x"
proof -
  from assms have nz: "x \<noteq> 0" and ax: "\<bar>x\<bar> = - x" by simp_all
  from scaled_bounds [OF nz] have "of_int (- (2 ^ 53)) * ulp x \<le> x" "x \<le> of_int (- (2 ^ 52)) * ulp x"
    unfolding ax by simp_all
  from scaled_round [OF this]
  have "- (2 ^ 53 * ulp x) \<le> of_int (roundEven (x / ulp x)) * ulp x"
    "of_int (roundEven (x / ulp x)) * ulp x \<le> - (2 ^ 52 * ulp x)"
    by simp_all
  then have "- (2 powr (of_int (exponent x) + 1)) \<le> of_int (roundEven (x / ulp x)) * ulp x"
    "of_int (roundEven (x / ulp x)) * ulp x \<le> - (2 powr of_int (exponent x))"
    by (simp_all only: ulp_scale)
  then show "nearest53 x \<le> - (2 powr of_int (exponent x))"
    "- (2 powr (of_int (exponent x) + 1)) \<le> nearest53 x"
    using nz by (simp_all only: nearest53_def if_False)
qed

lemma exponent_mono:
  assumes "x \<noteq> 0" and "\<bar>x\<bar> \<le> \<bar>y\<bar>"
  shows "exponent x \<le> exponent y"
proof -
  from assms have "0 < \<bar>x\<bar>" by simp
  with assms(2) have "log 2 \<bar>x\<bar> \<le> log 2 \<bar>y\<bar>"
    by simp
  then show ?thesis
    unfolding exponent_def by (rule floor_mono)
qed

lemma nearest53_same_exponent:
  assumes "x \<noteq> 0" "y \<noteq> 0" "x \<le> y" "exponent x = exponent y"
  shows "nearest53 x \<le> nearest53 y"
proof -
  have u: "ulp x = ulp y"
    by (simp add: ulp_def assms(4))
  have "x / ulp y \<le> y / ulp y"
    using assms(3) ulp_pos [of y] by (simp add: divide_right_mono)
  then have "roundEven (x / ulp y) \<le> roundEven (y / ulp y)"
    by (rule roundEven_mono)
  then have "(of_int (roundEven (x / ulp y)) :: real) \<le> of_int (roundEven (y / ulp y))"
    by simp
  then have "of_int (roundEven (x / ulp y)) * ulp y \<le> of_int (roundEven (y / ulp y)) * ulp y"
    using ulp_pos [of y] by simp
  then show ?thesis
    using assms(1,2) by (simp add: nearest53_def u)
qed

lemma nearest53_mono: "mono nearest53"
proof (rule monoI)
  fix x y :: real
  assume le: "x \<le> y"
  have z: "nearest53 0 = 0"
    by (simp add: nearest53_def)
  have nonneg: "0 \<le> nearest53 t" if "0 < t" for t
  proof -
    have "0 < 2 powr (of_int (exponent t) :: real)" by simp
    with nearest53_pos(1) [OF that] show ?thesis by linarith
  qed
  have nonpos: "nearest53 t \<le> 0" if "t < 0" for t
  proof -
    have "0 < 2 powr (of_int (exponent t) :: real)" by simp
    with nearest53_neg(1) [OF that] show ?thesis by linarith
  qed
  consider "x = 0" | "y = 0" | "x < 0" "0 < y" | "0 < x" "0 < y" | "x < 0" "y < 0"
    using le by linarith
  then show "nearest53 x \<le> nearest53 y"
  proof cases
    case 1
    show ?thesis
    proof (cases "y = 0")
      case True
      with 1 show ?thesis by simp
    next
      case False
      with 1 le have "0 < y" by simp
      then show ?thesis using 1 z nonneg by simp
    qed
  next
    case 2
    show ?thesis
    proof (cases "x = 0")
      case True
      with 2 show ?thesis by simp
    next
      case False
      with 2 le have "x < 0" by simp
      then show ?thesis using 2 z nonpos by simp
    qed
  next
    case 3
    from nonpos [OF 3(1)] nonneg [OF 3(2)] show ?thesis by linarith
  next
    case 4
    then have nz: "x \<noteq> 0" "y \<noteq> 0" by simp_all
    have "exponent x \<le> exponent y"
      using nz(1) le 4 by (intro exponent_mono) simp_all
    then consider "exponent x = exponent y" | "exponent x + 1 \<le> exponent y"
      by linarith
    then show ?thesis
    proof cases
      case 1
      with nz le show ?thesis by (rule nearest53_same_exponent)
    next
      case 2
      then have "(of_int (exponent x) + 1 :: real) \<le> of_int (exponent y)"
        by linarith
      then have "2 powr (of_int (exponent x) + 1) \<le> (2 powr of_int (exponent y) :: real)"
        by simp
      with nearest53_pos(2) [OF 4(1)] nearest53_pos(1) [OF 4(2)] show ?thesis
        by linarith
    qed
  next
    case 5
    then have nz: "x \<noteq> 0" "y \<noteq> 0" by simp_all
    have "exponent y \<le> exponent x"
      using nz(2) le 5 by (intro exponent_mono) simp_all
    then consider "exponent x = exponent y" | "exponent y + 1 \<le> exponent x"
      by linarith
    then show ?thesis
    proof cases
      case 1
      with nz le show ?thesis by (rule nearest53_same_exponent)
    next
      case 2
      then have "(of_int (exponent y) + 1 :: real) \<le> of_int (exponent x)"
        by linarith
      then have "2 powr (of_int (exponent y) + 1) \<le> (2 powr of_int (exponent x) :: real)"
        by simp
      with nearest53_neg(1) [OF 5(1)] nearest53_neg(2) [OF 5(2)] show ?thesis
        by linarith
    qed
  qed
qed


lemma nearest53_exact:
  assumes "x / ulp x = of_int n"
  shows "nearest53 x = x"
proof (cases "x = 0")
  case True
  then show ?thesis by (simp add: nearest53_def)
next
  case False
  have "of_int (roundEven (x / ulp x)) * ulp x = x / ulp x * ulp x"
    by (simp only: assms roundEven_int)
  also have "\<dots> = x"
    using ulp_pos [of x] by simp
  finally show ?thesis
    using False by (simp only: nearest53_def if_False)
qed

lemma nearest53_quantized:
  assumes "quantized x" and "\<bar>x\<bar> \<le> 32"
  shows "nearest53 x = x"
proof (cases "x = 0")
  case True
  then show ?thesis by (simp add: nearest53_def)
next
  case False
  from assms(1) obtain k :: int where k: "x = of_int k / 4"
    by (auto simp: quantized_iff)
  have "2 powr of_int (exponent x) \<le> (2 powr 5 :: real)"
    using binade(1) [OF False] assms(2) by simp
  then have "(of_int (exponent x) :: real) \<le> 5"
    using powr_le_cancel_iff [of 2 "of_int (exponent x)" 5] by simp
  then have e: "exponent x \<le> 5"
    by linarith
  define n where "n = nat (50 - exponent x)"
  have n: "real n = 50 - of_int (exponent x)"
    using e by (simp add: n_def)
  have "2 powr (2 + real n) = 2 powr (2::real) * 2 powr real n"
    by (rule powr_add)
  moreover have "2 powr real n = (2::real) ^ n"
    by (simp add: powr_realpow)
  moreover have "2 + real n = - (of_int (exponent x) - 52)"
    by (simp add: n)
  ultimately have "2 powr (- (of_int (exponent x) - 52)) = 4 * (2::real) ^ n"
    by simp
  then have "1 / ulp x = 4 * 2 ^ n"
    by (simp only: ulp_def powr_minus_divide)
  then have "x * (1 / ulp x) = x * (4 * 2 ^ n)"
    by (simp only:)
  then have "x / ulp x = x * (4 * 2 ^ n)"
    by simp
  also have "\<dots> = of_int (k * 2 ^ n)"
    by (simp add: k)
  finally show ?thesis
    by (rule nearest53_exact)
qed

lemma rounding_nearest53: "rounding nearest53"
  by (simp add: rounding_def nearest53_mono nearest53_quantized)

lemma rounding_id: "rounding id"
  by (simp add: rounding_def mono_def)

text \<open>The value of \<open>nearest53\<close> at a number that lies between two powers of two.\<close>

lemma nearest53_up:
  assumes "2 ^ n \<le> \<bar>x\<bar>" and "\<bar>x\<bar> < 2 * 2 ^ n"
  shows "nearest53 x = of_int (roundEven (x * 2 ^ 52 / 2 ^ n)) * 2 ^ n / 2 ^ 52"
proof -
  have p: "2 powr real n = (2::real) ^ n"
    by (simp add: powr_realpow)
  have "2 powr (real n + 1) = 2 powr real n * (2 powr 1 :: real)"
    by (rule powr_add)
  then have q: "2 powr (real n + 1) = 2 * (2::real) ^ n"
    by (simp add: p)
  have e: "exponent x = int n"
  proof (rule exponent_eq)
    show "2 powr of_int (int n) \<le> \<bar>x\<bar>"
      using assms(1) by (simp add: p)
    show "\<bar>x\<bar> < 2 powr (of_int (int n) + 1)"
      using assms(2) by (simp add: q)
  qed
  have "(0::real) < 2 ^ n"
    by simp
  with assms(1) have "0 < \<bar>x\<bar>"
    by linarith
  then have nz: "x \<noteq> 0"
    by simp
  have "2 powr (real n + - 52) = 2 powr real n * (2 powr (- 52) :: real)"
    by (rule powr_add)
  then have u: "ulp x = 2 ^ n / 2 ^ 52"
    by (simp add: ulp_def e p powr_minus_divide)
  show ?thesis
    using nz by (simp only: nearest53_def if_False u) (simp add: field_simps)
qed

lemma nearest53_down:
  assumes "1 \<le> \<bar>x\<bar> * 2 ^ n" and "\<bar>x\<bar> * 2 ^ n < 2"
  shows "nearest53 x = of_int (roundEven (x * 2 ^ 52 * 2 ^ n)) / (2 ^ 52 * 2 ^ n)"
proof -
  have p: "2 powr (- real n) = 1 / (2::real) ^ n"
    by (simp add: powr_realpow powr_minus_divide)
  have "2 powr (- real n + 1) = 2 powr (- real n) * (2 powr 1 :: real)"
    by (rule powr_add)
  then have q: "2 powr (- real n + 1) = 2 / (2::real) ^ n"
    by (simp only: p) simp
  have e: "exponent x = - int n"
  proof (rule exponent_eq)
    have "1 / 2 ^ n \<le> \<bar>x\<bar>"
      using assms(1) by (simp add: field_simps)
    then show "2 powr of_int (- int n) \<le> \<bar>x\<bar>"
      by (simp add: p)
    have "\<bar>x\<bar> < 2 / 2 ^ n"
      using assms(2) by (simp add: field_simps)
    then have "\<bar>x\<bar> < 2 powr (- real n + 1)"
      by (simp only: q)
    then show "\<bar>x\<bar> < 2 powr (of_int (- int n) + 1)"
      by simp
  qed
  have nz: "x \<noteq> 0"
    using assms(1) by auto
  have "2 powr (- real n + - 52) = 2 powr (- real n) * (2 powr (- 52) :: real)"
    by (rule powr_add)
  then have u: "ulp x = 1 / (2 ^ 52 * 2 ^ n)"
    by (simp add: ulp_def e p powr_minus_divide powr_realpow)
  show ?thesis
    using nz by (simp only: nearest53_def if_False u) (simp add: field_simps)
qed

section \<open>Midnight\<close>

text \<open>
  Claim C6, as amended. A block with \<open>end < start\<close> is drawn as exactly two
  rectangles, from \<open>start\<close> to 24 and from 0 to \<open>end\<close>, in the same row and for the same id;
  the second one is the continuation: it is marked as second part, its caption ends with
  \<open>(cont.)\<close> and it has no delete button. The two lengths add up to \<open>end - start + 24\<close>.
  A block with \<open>start \<le> end\<close>, equal ends included, is drawn as one rectangle from
  \<open>start\<close> to \<open>end\<close>.
\<close>

theorem TimeBlock_segments:
  "(end_blk block < start block \<longrightarrow>
      TimeBlock block row =
        [renderBlock block row (start block) 24 False, renderBlock block row 0 (end_blk block) True] \<and>
      map rb_row (TimeBlock block row) = [row, row] \<and>
      map (id_blk \<circ> rb_block) (TimeBlock block row) = [id_blk block, id_blk block] \<and>
      map rb_isSecondPart (TimeBlock block row) = [False, True] \<and>
      map deleteButton (TimeBlock block row) = [True, False] \<and>
      (\<exists>txt. caption (TimeBlock block row ! 1) = txt @ '' (cont.)'') \<and>
      (\<Sum>rb\<leftarrow>TimeBlock block row. rb_end rb - rb_start rb) = end_blk block - start block + 24) \<and>
   (start block \<le> end_blk block \<longrightarrow>
      TimeBlock block row = [renderBlock block row (start block) (end_blk block) False])"
  by (simp add: TimeBlock_def renderBlock_def caption_def deleteButton_def)

text \<open>
  The sleep block from 23 to 7 is drawn from 23 to 24 and from 0 to 7, eight hours in
  all; the work block from 9 to 17 is drawn once.
\<close>

theorem TimeBlock_segments_witness:
  "end_blk sleepBlock < start sleepBlock \<and>
   map (\<lambda>rb. (rb_start rb, rb_end rb, rb_row rb, id_blk (rb_block rb), rb_isSecondPart rb))
       (TimeBlock sleepBlock 0)
     = [(23, 24, 0, ''sleep'', False), (0, 7, 0, ''sleep'', True)] \<and>
   (\<Sum>rb\<leftarrow>TimeBlock sleepBlock 0. rb_end rb - rb_start rb) = 8 \<and>
   start workBlock \<le> end_blk workBlock \<and>
   map (\<lambda>rb. (rb_start rb, rb_end rb, rb_isSecondPart rb)) (TimeBlock workBlock 0) = [(9, 17, False)]"
  using TimeBlock_segments [of sleepBlock 0] TimeBlock_segments [of workBlock 0]
  by (simp add: sleepBlock_def workBlock_def renderBlock_def)

text \<open>
  Claim C6 as stated fails for a block whose end equals its start: it is drawn once,
  with no continuation.
\<close>

definition emptyBlock :: TimeBlockData where
  "emptyBlock = \<lparr>id_blk = ''block-1'', start = 9, end_blk = 9, label = ''New Block'',
     color = ''#E6F3FF'', calendarId = ''work''\<rparr>"

theorem TimeBlock_equal_ends:
  "end_blk emptyBlock \<le> start emptyBlock \<and>
   TimeBlock emptyBlock 0 = [renderBlock emptyBlock 0 9 9 False]"
  by (simp add: TimeBlock_def emptyBlock_def)

section \<open>Updates of the store\<close>

lemma applyUpdates_fields:
  "id_blk (applyUpdates b u) = (case id_upd u of None \<Rightarrow> id_blk b | Some v \<Rightarrow> v)"
  "start (applyUpdates b u) = (case start_upd u of None \<Rightarrow> start b | Some v \<Rightarrow> v)"
  "end_blk (applyUpdates b u) = (case end_upd u of None \<Rightarrow> end_blk b | Some v \<Rightarrow> v)"
  "label (applyUpdates b u) = (case label_upd u of None \<Rightarrow> label b | Some v \<Rightarrow> v)"
  "color (applyUpdates b u) = (case color_upd u of None \<Rightarrow> color b | Some v \<Rightarrow> v)"
  "calendarId (applyUpdates b u) = (case calendarId_upd u of None \<Rightarrow> calendarId b | Some v \<Rightarrow> v)"
  by (simp_all add: applyUpdates_def orElse_def)

lemma applyUpdates_keeps_id: "id_upd u = None \<Longrightarrow> id_blk (applyUpdates b u) = id_blk b"
  by (simp add: applyUpdates_fields)

lemma applyUpdates_label: "applyUpdates b (noUpdates\<lparr>label_upd := Some txt\<rparr>) = b\<lparr>label := txt\<rparr>"
  by (simp add: applyUpdates_def orElse_def noUpdates_def)

lemma onUpdateBlock_commute:
  assumes "i \<noteq> j" and "id_upd u = None" and "id_upd v = None"
  shows "onUpdateBlock i u (onUpdateBlock j v bs) = onUpdateBlock j v (onUpdateBlock i u bs)"
  using assms by (induction bs) (simp_all add: onUpdateBlock_def applyUpdates_keeps_id)

lemma onUpdateBlock_absent:
  "i \<notin> id_blk ` set bs \<Longrightarrow> onUpdateBlock i u bs = bs"
  by (induction bs) (auto simp: onUpdateBlock_def)

text \<open>
  Claim C9. An update for the id \<open>i\<close> leaves the number and the order of the blocks
  as they are, leaves every block with another id as it is, and gives a block with the id
  \<open>i\<close> the fields that the update carries while every other field of it keeps its
  value. The label edit, which sends only the label, changes only the label. Updates
  for two different ids, neither of which carries an id, give the same store in either
  order.
\<close>

theorem update_frame:
  "length (onUpdateBlock i u bs) = length bs \<and>
   (\<forall>k<length bs. id_blk (bs ! k) \<noteq> i \<longrightarrow> onUpdateBlock i u bs ! k = bs ! k) \<and>
   (\<forall>k<length bs. id_blk (bs ! k) = i \<longrightarrow>
      id_blk (onUpdateBlock i u bs ! k) = (case id_upd u of None \<Rightarrow> id_blk (bs ! k) | Some v \<Rightarrow> v) \<and>
      start (onUpdateBlock i u bs ! k) = (case start_upd u of None \<Rightarrow> start (bs ! k) | Some v \<Rightarrow> v) \<and>
      end_blk (onUpdateBlock i u bs ! k) = (case end_upd u of None \<Rightarrow> end_blk (bs ! k) | Some v \<Rightarrow> v) \<and>
      label (onUpdateBlock i u bs ! k) = (case label_upd u of None \<Rightarrow> label (bs ! k) | Some v \<Rightarrow> v) \<and>
      color (onUpdateBlock i u bs ! k) = (case color_upd u of None \<Rightarrow> color (bs ! k) | Some v \<Rightarrow> v) \<and>
      calendarId (onUpdateBlock i u bs ! k)
        = (case calendarId_upd u of None \<Rightarrow> calendarId (bs ! k) | Some v \<Rightarrow> v)) \<and>
   (\<forall>k<length (blocks s). id_blk (blocks s ! k) = i \<longrightarrow>
      blocks (handleUpdateLabel i txt s) ! k = (blocks s ! k)\<lparr>label := txt\<rparr>) \<and>
   (\<forall>k<length (blocks s). id_blk (blocks s ! k) \<noteq> i \<longrightarrow>
      blocks (handleUpdateLabel i txt s) ! k = blocks s ! k) \<and>
   (i \<noteq> j \<and> id_upd u = None \<and> id_upd v = None \<longrightarrow>
      onUpdateBlock i u (onUpdateBlock j v bs) = onUpdateBlock j v (onUpdateBlock i u bs))"
proof -
  have nth: "onUpdateBlock i u bs ! k = (if id_blk (bs ! k) = i then applyUpdates (bs ! k) u else bs ! k)"
    if "k < length bs" for k u bs
    using that by (simp add: onUpdateBlock_def)
  have lab: "blocks (handleUpdateLabel i txt s) = onUpdateBlock i (noUpdates\<lparr>label_upd := Some txt\<rparr>) (blocks s)"
    by (simp add: handleUpdateLabel_def callUpdateBlock_def)
  have len: "length (onUpdateBlock i u bs) = length bs"
    by (simp add: onUpdateBlock_def)
  have com: "i \<noteq> j \<and> id_upd u = None \<and> id_upd v = None \<longrightarrow>
      onUpdateBlock i u (onUpdateBlock j v bs) = onUpdateBlock j v (onUpdateBlock i u bs)"
    using onUpdateBlock_commute by blast
  from len com show ?thesis
    by (simp add: nth lab applyUpdates_fields applyUpdates_label)
qed

text \<open>Renaming the work block while the sleep block is moved.\<close>

theorem update_frame_witness:
  "(1::nat) < length defaultBlocks \<and> id_blk (defaultBlocks ! 1) \<noteq> ''work-block'' \<and>
   (0::nat) < length defaultBlocks \<and> id_blk (defaultBlocks ! 0) = ''work-block'' \<and>
   ''work-block'' \<noteq> ''sleep'' \<and>
   id_upd (noUpdates\<lparr>label_upd := Some ''Office''\<rparr>) = None \<and>
   id_upd (noUpdates\<lparr>start_upd := Some 22, end_upd := Some 6\<rparr>) = None \<and>
   onUpdateBlock ''work-block'' (noUpdates\<lparr>label_upd := Some ''Office''\<rparr>) defaultBlocks
     = [workBlock\<lparr>label := ''Office''\<rparr>, sleepBlock] \<and>
   blocks (handleUpdateLabel ''work-block'' ''Office'' (initialState defaultBlocks))
     = [workBlock\<lparr>label := ''Office''\<rparr>, sleepBlock] \<and>
   onUpdateBlock ''work-block'' (noUpdates\<lparr>label_upd := Some ''Office''\<rparr>)
       (onUpdateBlock ''sleep'' (noUpdates\<lparr>start_upd := Some 22, end_upd := Some 6\<rparr>) defaultBlocks)
     = onUpdateBlock ''sleep'' (noUpdates\<lparr>start_upd := Some 22, end_upd := Some 6\<rparr>)
       (onUpdateBlock ''work-block'' (noUpdates\<lparr>label_upd := Some ''Office''\<rparr>) defaultBlocks)"
  using update_frame [of "''work-block''" "noUpdates\<lparr>label_upd := Some ''Office''\<rparr>" defaultBlocks
      "initialState defaultBlocks" "''Office''" "''sleep''"
      "noUpdates\<lparr>start_upd := Some 22, end_upd := Some 6\<rparr>"]
  by (simp add: defaultBlocks_def workBlock_def sleepBlock_def noUpdates_def onUpdateBlock_def
      applyUpdates_def orElse_def handleUpdateLabel_def callUpdateBlock_def initialState_def)

section \<open>The mutation proposed by a move\<close>

text \<open>
  Claim C7, as amended. In a move gesture the proposed mutation is
  \<open>start = roundQuarter newStart\<close> and \<open>end = roundQuarter (newStart + dur)\<close> with
  \<open>newStart = clamp (initialStart + timeShift) 0 (24 - dur)\<close>, where \<open>dur\<close> is the stored
  \<open>end - start\<close> of the target in the current snapshot and each sum and difference is
  the one that the arithmetic of the machine yields. Whenever the stored difference
  equals \<open>initialEnd - initialStart\<close> the mutation is the one of the specification's
  rule. For a block of two hours, a shift that takes the start to 0 or below gives start
  0 and end 2, and a shift that takes the end to 24 or above gives start 22 and end 24.
\<close>

theorem move_proposal:
  assumes "type ds = Some move"
  shows "proposedUpdates fl ds b timeShift =
       noUpdates\<lparr>start_upd :=
           Some (roundQuarter (clamp (fl (initialStart ds + timeShift)) 0
             (fl (24 - fl (end_blk b - start b))))),
         end_upd :=
           Some (roundQuarter (fl (clamp (fl (initialStart ds + timeShift)) 0
               (fl (24 - fl (end_blk b - start b)))
             + fl (end_blk b - start b))))\<rparr> \<and>
     (end_blk b - start b = initialEnd ds - initialStart ds \<longrightarrow>
        start_upd (proposedUpdates fl ds b timeShift)
          = Some (fst (specMove fl (initialStart ds) (initialEnd ds) timeShift)) \<and>
        end_upd (proposedUpdates fl ds b timeShift)
          = Some (snd (specMove fl (initialStart ds) (initialEnd ds) timeShift))) \<and>
     (rounding fl \<and> end_blk b - start b = 2 \<and> initialStart ds + timeShift \<le> 0 \<longrightarrow>
        start (applyUpdates b (proposedUpdates fl ds b timeShift)) = 0 \<and>
        end_blk (applyUpdates b (proposedUpdates fl ds b timeShift)) = 2) \<and>
     (rounding fl \<and> end_blk b - start b = 2 \<and> 24 \<le> initialStart ds + timeShift + 2 \<longrightarrow>
        start (applyUpdates b (proposedUpdates fl ds b timeShift)) = 22 \<and>
        end_blk (applyUpdates b (proposedUpdates fl ds b timeShift)) = 24)"
proof -
  let ?d = "fl (end_blk b - start b)"
  let ?s = "fl (initialStart ds + timeShift)"
  let ?n = "clamp ?s 0 (fl (24 - ?d))"
  have pu: "proposedUpdates fl ds b timeShift =
      noUpdates\<lparr>start_upd := Some (roundQuarter ?n), end_upd := Some (roundQuarter (fl (?n + ?d)))\<rparr>"
    using assms by (simp add: proposedUpdates_def Let_def clamp_def roundQuarter_def)
  have app: "start (applyUpdates b (proposedUpdates fl ds b timeShift)) = roundQuarter ?n"
    "end_blk (applyUpdates b (proposedUpdates fl ds b timeShift)) = roundQuarter (fl (?n + ?d))"
    by (simp_all add: pu applyUpdates_def orElse_def noUpdates_def)
  have spec: "start_upd (proposedUpdates fl ds b timeShift)
          = Some (fst (specMove fl (initialStart ds) (initialEnd ds) timeShift)) \<and>
        end_upd (proposedUpdates fl ds b timeShift)
          = Some (snd (specMove fl (initialStart ds) (initialEnd ds) timeShift))"
    if "end_blk b - start b = initialEnd ds - initialStart ds"
    unfolding pu specMove_def Let_def that [symmetric] by (simp add: noUpdates_def)
  have two: "?d = 2" "fl (24 - ?d) = 22" "fl 0 = 0" "fl 22 = 22" "fl 24 = 24" "fl 2 = 2"
    if "rounding fl" "end_blk b - start b = 2"
  proof -
    have q: "fl x = x" if "quantized x" "\<bar>x\<bar> \<le> 32" for x
      using \<open>rounding fl\<close> that by (simp add: rounding_def)
    have g: "quantized 0" "quantized 2" "quantized 22" "quantized 24"
      by (simp_all add: quantized_def roundQuarter_def)
    show "?d = 2"
      using q [of 2] g that(2) by simp
    then show "fl (24 - ?d) = 22"
      using q [of 22] g by simp
    show "fl 0 = 0" "fl 22 = 22" "fl 24 = 24" "fl 2 = 2"
      using q [of 0] q [of 22] q [of 24] q [of 2] g by simp_all
  qed
  have low: "roundQuarter ?n = 0 \<and> roundQuarter (fl (?n + ?d)) = 2"
    if "rounding fl \<and> end_blk b - start b = 2 \<and> initialStart ds + timeShift \<le> 0"
  proof -
    from that have r: "rounding fl" and d: "end_blk b - start b = 2"
      and le: "initialStart ds + timeShift \<le> 0"
      by simp_all
    have "?s \<le> fl 0"
      using r le by (simp add: rounding_def monoD)
    then have "?s \<le> 0"
      by (simp only: two(3) [OF r d])
    then have "?n = 0"
      by (simp add: clamp_def two(2) [OF r d])
    then show ?thesis
      by (simp add: two(1) [OF r d] two(6) [OF r d] roundQuarter_def)
  qed
  have high: "roundQuarter ?n = 22 \<and> roundQuarter (fl (?n + ?d)) = 24"
    if "rounding fl \<and> end_blk b - start b = 2 \<and> 24 \<le> initialStart ds + timeShift + 2"
  proof -
    from that have r: "rounding fl" and d: "end_blk b - start b = 2"
      and ge: "22 \<le> initialStart ds + timeShift"
      by simp_all
    have "fl 22 \<le> ?s"
      using r ge by (simp add: rounding_def monoD)
    then have "22 \<le> ?s"
      by (simp only: two(4) [OF r d])
    then have "?n = 22"
      by (simp add: clamp_def two(2) [OF r d])
    then show ?thesis
      by (simp add: two(1) [OF r d] two(5) [OF r d] roundQuarter_def)
  qed
  show ?thesis
    unfolding app using pu spec low high by (intro conjI impI) blast+
qed

text \<open>A block from 10 to 12 dragged by 11 hours to the left and by 13 hours to the right.\<close>

definition twoHourBlock :: TimeBlockData where
  "twoHourBlock = \<lparr>id_blk = ''block-1'', start = 10, end_blk = 12, label = ''New Block'',
     color = ''#E6F3FF'', calendarId = ''work''\<rparr>"

definition moveDrag :: DragState where
  "moveDrag = \<lparr>type = Some move, blockId = Some ''block-1'', initialX = 500,
     initialStart = 10, initialEnd = 12\<rparr>"

text \<open>
  The work block set by the picker to 9:12-17:12, as binary64 holds it, and a move of 21
  pixels of 320 to the left. The start and the end are the sums \<open>hour + minute / 60\<close> of
  the picker and the shift is \<open>(deltaX / width) * 24\<close>, each operation rounded by
  \<open>nearest53\<close>.
\<close>

definition offGridBlock :: TimeBlockData where
  "offGridBlock = workBlock\<lparr>start := nearest53 (9 + nearest53 (12 / 60)),
     end_blk := nearest53 (17 + nearest53 (12 / 60))\<rparr>"

definition offGridDrag :: DragState where
  "offGridDrag = \<lparr>type = Some move, blockId = Some ''work-block'', initialX = 21,
     initialStart = start offGridBlock, initialEnd = end_blk offGridBlock\<rparr>"

definition offGridShift :: real where
  "offGridShift = nearest53 (nearest53 ((0 - 21) / 320) * 24)"

lemma offGrid_values:
  "start offGridBlock = 2589569785738035 / 281474976710656"
  "end_blk offGridBlock = 4841369599423283 / 281474976710656"
  "offGridShift = - (1773292353277133 / 1125899906842624)"
proof -
  have m: "nearest53 (12 / 60) = 3602879701896397 / 18014398509481984"
    by (subst nearest53_down [where n = 3]) (simp_all add: roundEven_def)
  have s: "nearest53 (9 + 3602879701896397 / 18014398509481984) = 2589569785738035 / 281474976710656"
    by (subst nearest53_up [where n = 3]) (simp_all add: roundEven_def)
  have e: "nearest53 (17 + 3602879701896397 / 18014398509481984) = 4841369599423283 / 281474976710656"
    by (subst nearest53_up [where n = 4]) (simp_all add: roundEven_def)
  have r: "nearest53 ((0 - 21) / 320) = - (4728779608739021 / 72057594037927936)"
    by (subst nearest53_down [where n = 4]) (simp_all add: roundEven_def)
  have t: "nearest53 (- (4728779608739021 / 72057594037927936) * 24)
      = - (1773292353277133 / 1125899906842624)"
    by (subst nearest53_up [where n = 0]) (simp_all add: roundEven_def)
  show "start offGridBlock = 2589569785738035 / 281474976710656"
    by (simp only: offGridBlock_def m s) simp
  show "end_blk offGridBlock = 4841369599423283 / 281474976710656"
    by (simp only: offGridBlock_def m e) simp
  show "offGridShift = - (1773292353277133 / 1125899906842624)"
    by (simp only: offGridShift_def r t)
qed

lemma offGrid_sums:
  "nearest53 (end_blk offGridBlock - start offGridBlock) = 8"
  "nearest53 (24 - 8) = 16"
  "nearest53 (initialStart offGridDrag + offGridShift) = 8584986789675007 / 1125899906842624"
  "nearest53 (8584986789675007 / 1125899906842624 + 8) = 125 / 8"
proof -
  have "end_blk offGridBlock - start offGridBlock = 8"
    by (simp add: offGrid_values)
  moreover have "nearest53 8 = 8"
    by (subst nearest53_up [where n = 3]) (simp_all add: roundEven_def)
  ultimately show "nearest53 (end_blk offGridBlock - start offGridBlock) = 8"
    by (simp only:)
  show "nearest53 (24 - 8) = 16"
    by (subst nearest53_up [where n = 4]) (simp_all add: roundEven_def)
  have "initialStart offGridDrag + offGridShift = 8584986789675007 / 1125899906842624"
    by (simp add: offGridDrag_def offGrid_values)
  moreover have "nearest53 (8584986789675007 / 1125899906842624) = 8584986789675007 / 1125899906842624"
    by (subst nearest53_up [where n = 2]) (simp_all add: roundEven_def)
  ultimately show "nearest53 (initialStart offGridDrag + offGridShift) = 8584986789675007 / 1125899906842624"
    by (simp only:)
  show "nearest53 (8584986789675007 / 1125899906842624 + 8) = 125 / 8"
    by (subst nearest53_up [where n = 3]) (simp_all add: roundEven_def)
qed

lemma offGrid_quarters:
  "clamp (8584986789675007 / 1125899906842624) 0 16 = 8584986789675007 / 1125899906842624"
  "roundQuarter (8584986789675007 / 1125899906842624) = 15 / 2"
  "roundQuarter (125 / 8) = 63 / 4"
  by (simp_all add: clamp_def roundQuarter_def round_def)

text \<open>
  The block from 10 to 12 is taken to 0-2 and to 22-24 in exact arithmetic and in that
  of binary64. For the block 9:12-17:12 the rounded sums propose 7:30-15:45: the sum
  of the new start and the duration is a tie between two binary64 numbers and is rounded
  up to 15.625, which \<^verbatim>\<open>Math.round\<close> takes to the next quarter.
\<close>

theorem move_proposal_witness:
  "type moveDrag = Some move \<and> rounding id \<and>
   end_blk twoHourBlock - start twoHourBlock = initialEnd moveDrag - initialStart moveDrag \<and>
   end_blk twoHourBlock - start twoHourBlock = 2 \<and>
   initialStart moveDrag + (- 11) \<le> 0 \<and> 24 \<le> initialStart moveDrag + 13 + 2 \<and>
   start (applyUpdates twoHourBlock (proposedUpdates id moveDrag twoHourBlock (- 11))) = 0 \<and>
   end_blk (applyUpdates twoHourBlock (proposedUpdates id moveDrag twoHourBlock (- 11))) = 2 \<and>
   start (applyUpdates twoHourBlock (proposedUpdates id moveDrag twoHourBlock 13)) = 22 \<and>
   end_blk (applyUpdates twoHourBlock (proposedUpdates id moveDrag twoHourBlock 13)) = 24 \<and>
   start_upd (proposedUpdates id moveDrag twoHourBlock 13)
     = Some (fst (specMove id (initialStart moveDrag) (initialEnd moveDrag) 13)) \<and>
   end_upd (proposedUpdates id moveDrag twoHourBlock 13)
     = Some (snd (specMove id (initialStart moveDrag) (initialEnd moveDrag) 13)) \<and>
   specMove id (initialStart moveDrag) (initialEnd moveDrag) 13 = (22, 24) \<and>
   rounding nearest53 \<and>
   start (applyUpdates twoHourBlock (proposedUpdates nearest53 moveDrag twoHourBlock (- 11))) = 0 \<and>
   end_blk (applyUpdates twoHourBlock (proposedUpdates nearest53 moveDrag twoHourBlock (- 11))) = 2 \<and>
   start (applyUpdates twoHourBlock (proposedUpdates nearest53 moveDrag twoHourBlock 13)) = 22 \<and>
   end_blk (applyUpdates twoHourBlock (proposedUpdates nearest53 moveDrag twoHourBlock 13)) = 24 \<and>
   type offGridDrag = Some move \<and>
   proposedUpdates nearest53 offGridDrag offGridBlock offGridShift
     = noUpdates\<lparr>start_upd := Some (15 / 2), end_upd := Some (63 / 4)\<rparr>"
proof -
  have t: "type moveDrag = Some move"
    by (simp add: moveDrag_def)
  have h: "end_blk twoHourBlock - start twoHourBlock = initialEnd moveDrag - initialStart moveDrag"
    "end_blk twoHourBlock - start twoHourBlock = 2"
    "initialStart moveDrag + (- 11) \<le> 0" "24 \<le> initialStart moveDrag + 13 + 2"
    by (simp_all add: moveDrag_def twoHourBlock_def)
  have s: "specMove id (initialStart moveDrag) (initialEnd moveDrag) 13 = (22, 24)"
    by (simp add: specMove_def moveDrag_def clamp_def roundQuarter_def round_def)
  have o: "type offGridDrag = Some move"
    by (simp add: offGridDrag_def)
  from move_proposal [OF t, of id twoHourBlock "- 11"] move_proposal [OF t, of id twoHourBlock 13]
    t h s rounding_id
  have exact: "start (applyUpdates twoHourBlock (proposedUpdates id moveDrag twoHourBlock (- 11))) = 0"
    "end_blk (applyUpdates twoHourBlock (proposedUpdates id moveDrag twoHourBlock (- 11))) = 2"
    "start (applyUpdates twoHourBlock (proposedUpdates id moveDrag twoHourBlock 13)) = 22"
    "end_blk (applyUpdates twoHourBlock (proposedUpdates id moveDrag twoHourBlock 13)) = 24"
    "start_upd (proposedUpdates id moveDrag twoHourBlock 13)
      = Some (fst (specMove id (initialStart moveDrag) (initialEnd moveDrag) 13))"
    "end_upd (proposedUpdates id moveDrag twoHourBlock 13)
      = Some (snd (specMove id (initialStart moveDrag) (initialEnd moveDrag) 13))"
    by blast+
  from move_proposal [OF t, of nearest53 twoHourBlock "- 11"]
    move_proposal [OF t, of nearest53 twoHourBlock 13] h rounding_nearest53
  have machine: "start (applyUpdates twoHourBlock (proposedUpdates nearest53 moveDrag twoHourBlock (- 11))) = 0"
    "end_blk (applyUpdates twoHourBlock (proposedUpdates nearest53 moveDrag twoHourBlock (- 11))) = 2"
    "start (applyUpdates twoHourBlock (proposedUpdates nearest53 moveDrag twoHourBlock 13)) = 22"
    "end_blk (applyUpdates twoHourBlock (proposedUpdates nearest53 moveDrag twoHourBlock 13)) = 24"
    by blast+
  have off: "proposedUpdates nearest53 offGridDrag offGridBlock offGridShift
     = noUpdates\<lparr>start_upd := Some (15 / 2), end_upd := Some (63 / 4)\<rparr>"
    using move_proposal [OF o, of nearest53 offGridBlock offGridShift, THEN conjunct1]
    by (simp only: offGrid_sums offGrid_quarters)
  from t h exact s rounding_id rounding_nearest53 machine o off show ?thesis
    by (intro conjI)
qed

text \<open>
  Claim C7 as stated, with the duration of the origin, fails for a block that is off the
  grid. The picker sets the work block to 9:07-10:00; a move gesture starts; a first
  move with no shift is committed and stores 9:00-10:00, a duration of one hour; the
  next move, 5 pixels of 1200 to the right, proposes 9:15-10:15 where the rule with the
  origin's duration of 53 minutes gives 9:15-10:00.
\<close>

definition nonGridDrag :: "event list" where
  "nonGridDrag =
     [TimeEdit ''work-block'', PickerInput StartMinute 7, PickerInput EndHour 10, PickerSave,
      StartDrag move ''work-block'' 100, MouseMove 100 1200, AnimationFrame, DebounceTimer,
      MouseMove 105 1200, AnimationFrame]"

definition nonGridState :: TimelineState where
  "nonGridState =
     \<lparr>blocks = [workBlock\<lparr>start := 9, end_blk := 10\<rparr>, sleepBlock],
      dragState = \<lparr>type = Some move, blockId = Some ''work-block'', initialX = 100,
        initialStart = 547 / 60, initialEnd = 10\<rparr>,
      frameCallbacks = [],
      pendingUpdate =
        Some (''work-block'', noUpdates\<lparr>start_upd := Some (37 / 4), end_upd := Some (41 / 4)\<rparr>),
      updateCalls =
        [(''work-block'', noUpdates\<lparr>start_upd := Some (547 / 60), end_upd := Some 10\<rparr>),
         (''work-block'', noUpdates\<lparr>start_upd := Some 9, end_upd := Some 10\<rparr>)],
      selectedBlock = None,
      picker = \<lparr>startHour = 9, startMinute = 7, endHour = 10, endMinute = 0\<rparr>\<rparr>"

theorem move_reads_stored_duration:
  "run id ''work'' (initialState defaultBlocks) nonGridDrag = Some nonGridState \<and>
   pendingUpdate nonGridState
     = Some (''work-block'', noUpdates\<lparr>start_upd := Some (37 / 4), end_upd := Some (41 / 4)\<rparr>) \<and>
   initialStart (dragState nonGridState) = 547 / 60 \<and>
   initialEnd (dragState nonGridState) = 10 \<and>
   specMove id (547 / 60) 10 (((105 - 100) / 1200) * 24) = (37 / 4, 10) \<and>
   pendingUpdate nonGridState
     \<noteq> Some (''work-block'', noUpdates\<lparr>
         start_upd := Some (fst (specMove id (initialStart (dragState nonGridState))
           (initialEnd (dragState nonGridState)) (((105 - 100) / 1200) * 24))),
         end_upd := Some (snd (specMove id (initialStart (dragState nonGridState))
           (initialEnd (dragState nonGridState)) (((105 - 100) / 1200) * 24)))\<rparr>)"
  by (simp add: nonGridDrag_def nonGridState_def run_defs specMove_def clamp_def roundQuarter_def)

section \<open>The mutation proposed by a resize of the start\<close>




section \<open>The release of the pointer\<close>

text \<open>
  A gesture with three moves: the press on the block, three pointer moves, each followed
  or not by an animation frame, and the release.
\<close>

definition frames :: "bool \<Rightarrow> event list" where
  "frames f = (if f then [AnimationFrame] else [])"

definition gesture ::
  "dragType \<Rightarrow> string \<Rightarrow> real \<Rightarrow> real \<times> real \<Rightarrow> real \<times> real \<Rightarrow> real \<times> real
    \<Rightarrow> bool \<Rightarrow> bool \<Rightarrow> bool \<Rightarrow> event list" where
  "gesture ty i x0 m1 m2 m3 f1 f2 f3 =
     [StartDrag ty i x0, MouseMove (fst m1) (snd m1)] @ frames f1 @
     [MouseMove (fst m2) (snd m2)] @ frames f2 @
     [MouseMove (fst m3) (snd m3)] @ frames f3 @ [MouseUp]"

lemma mouseUp_active:
  "type (dragState s) \<noteq> None \<Longrightarrow> step fl cal s MouseUp = Some (s\<lparr>dragState := noDrag\<rparr>)"
  by (simp add: handleMouseUp_def)

lemma gesture_run:
  assumes "find (\<lambda>b. id_blk b = i) (timelineBlocks cal s) = Some b"
    and "i \<noteq> ''''" and "w1 \<noteq> 0" and "w2 \<noteq> 0" and "w3 \<noteq> 0"
    and "frameCallbacks s = []" and "pendingUpdate s = None"
  shows "\<exists>s1 s2. run fl cal s (gesture ty i x0 (x1, w1) (x2, w2) (x3, w3) f1 f2 f3) = Some s1 \<and>
     dragState s1 = noDrag \<and> updateCalls s1 = updateCalls s \<and> blocks s1 = blocks s \<and>
     run fl cal s1 [AnimationFrame, DebounceTimer] = Some s2 \<and>
     dragState s2 = noDrag \<and> pendingUpdate s2 = None \<and> frameCallbacks s2 = [] \<and>
     updateCalls s2 = updateCalls s @
       [(i, proposedUpdates fl \<lparr>type = Some ty, blockId = Some i, initialX = x0,
              initialStart = start b, initialEnd = end_blk b\<rparr> b (((x3 - x0) / w3) * 24))] \<and>
     blocks s2 = onUpdateBlock i
       (proposedUpdates fl \<lparr>type = Some ty, blockId = Some i, initialX = x0,
          initialStart = start b, initialEnd = end_blk b\<rparr> b (((x3 - x0) / w3) * 24))
       (blocks s)"
proof -
  have i: "id_blk b = i"
    using assms(1) by (auto dest: find_Some_iff [THEN iffD1])
  have tb: "timelineBlocks cal (s\<lparr>dragState := d\<rparr>) = timelineBlocks cal s" for d
    by (simp add: timelineBlocks_def)
  show ?thesis
    using assms i
    by (cases f1; cases f2; cases f3)
      (simp_all add: gesture_def frames_def handleStartDrag_def handleMouseMove_def
        handleMouseUp_def animationFrame_def debounceTimer_def frameCallback_def
        debouncedUpdate_def callUpdateBlock_def timelineBlocks_def noDrag_def)
qed

text \<open>
  Claim C2, as amended. The release of the pointer during a gesture only resets the
  drag state: nothing is delivered to the store, and a mutation that is pending stays
  pending until the timer expires. Consequently, from a state with nothing pending, a
  press on a block, three moves within one window (no timer expires, animation frames
  may run) and the release leave the store and the calls of its update as they were;
  the next animation frame and the expiry of the timer then deliver exactly one update,
  the mutation proposed for the last move.
\<close>

theorem release_then_timer:
  assumes "find (\<lambda>b. id_blk b = i) (timelineBlocks cal s) = Some b"
    and "i \<noteq> ''''" and "w1 \<noteq> 0" and "w2 \<noteq> 0" and "w3 \<noteq> 0"
    and "frameCallbacks s = []" and "pendingUpdate s = None"
  shows "(\<forall>s'. type (dragState s') \<noteq> None \<longrightarrow> step fl cal s' MouseUp = Some (s'\<lparr>dragState := noDrag\<rparr>)) \<and>
     (\<exists>s1 s2. run fl cal s (gesture ty i x0 (x1, w1) (x2, w2) (x3, w3) f1 f2 f3) = Some s1 \<and>
        dragState s1 = noDrag \<and> updateCalls s1 = updateCalls s \<and> blocks s1 = blocks s \<and>
        run fl cal s1 [AnimationFrame, DebounceTimer] = Some s2 \<and>
        dragState s2 = noDrag \<and> pendingUpdate s2 = None \<and> frameCallbacks s2 = [] \<and>
        updateCalls s2 = updateCalls s @
          [(i, proposedUpdates fl \<lparr>type = Some ty, blockId = Some i, initialX = x0,
                 initialStart = start b, initialEnd = end_blk b\<rparr> b (((x3 - x0) / w3) * 24))] \<and>
        blocks s2 = onUpdateBlock i
          (proposedUpdates fl \<lparr>type = Some ty, blockId = Some i, initialX = x0,
             initialStart = start b, initialEnd = end_blk b\<rparr> b (((x3 - x0) / w3) * 24))
          (blocks s))"
  using gesture_run [OF assms] mouseUp_active by blast

text \<open>The work block dragged to the right by 10, 20 and 50 pixels of 1000.\<close>

theorem release_then_timer_witness:
  "find (\<lambda>b. id_blk b = ''work-block'') (timelineBlocks ''work'' (initialState defaultBlocks))
     = Some workBlock \<and>
   ''work-block'' \<noteq> '''' \<and> (1000::real) \<noteq> 0 \<and>
   frameCallbacks (initialState defaultBlocks) = [] \<and>
   pendingUpdate (initialState defaultBlocks) = None \<and>
   type (dragState (handleStartDrag ''work'' (initialState defaultBlocks) move ''work-block'' 100)) \<noteq> None \<and>
   (\<exists>s1 s2. run id ''work'' (initialState defaultBlocks)
          (gesture move ''work-block'' 100 (110, 1000) (120, 1000) (150, 1000) False False True)
        = Some s1 \<and>
      dragState s1 = noDrag \<and> updateCalls s1 = [] \<and>
      run id ''work'' s1 [AnimationFrame, DebounceTimer] = Some s2 \<and>
      updateCalls s2 =
        [(''work-block'', noUpdates\<lparr>start_upd := Some (41 / 4), end_upd := Some (73 / 4)\<rparr>)])"
proof -
  have f: "find (\<lambda>b. id_blk b = ''work-block'') (timelineBlocks ''work'' (initialState defaultBlocks))
     = Some workBlock"
    by (simp add: timelineBlocks_def initialState_def defaultBlocks_def workBlock_def sleepBlock_def)
  have n: "''work-block'' \<noteq> ''''" and w: "(1000::real) \<noteq> 0"
    and c: "frameCallbacks (initialState defaultBlocks) = []"
    and e: "pendingUpdate (initialState defaultBlocks) = None"
    by (simp_all add: initialState_def)
  have a: "type (dragState (handleStartDrag ''work'' (initialState defaultBlocks) move ''work-block'' 100)) \<noteq> None"
    by (simp add: handleStartDrag_def f)
  have p: "proposedUpdates id \<lparr>type = Some move, blockId = Some ''work-block'', initialX = 100,
        initialStart = start workBlock, initialEnd = end_blk workBlock\<rparr> workBlock (((150 - 100) / 1000) * 24)
      = noUpdates\<lparr>start_upd := Some (41 / 4), end_upd := Some (73 / 4)\<rparr>"
    by (simp add: proposedUpdates_def workBlock_def Let_def round_def)
  have u: "updateCalls (initialState defaultBlocks) = []"
    by (simp add: initialState_def)
  from release_then_timer [OF f n w w w c e, where fl = id and ty = move and ?x0.0 = 100
      and ?x1.0 = 110 and ?x2.0 = 120 and ?x3.0 = 150 and ?f1.0 = False and ?f2.0 = False and ?f3.0 = True]
  obtain s1 s2 where "run id ''work'' (initialState defaultBlocks)
          (gesture move ''work-block'' 100 (110, 1000) (120, 1000) (150, 1000) False False True)
        = Some s1"
    and "dragState s1 = noDrag" and "updateCalls s1 = []"
    and "run id ''work'' s1 [AnimationFrame, DebounceTimer] = Some s2"
    and "updateCalls s2 =
        [(''work-block'', noUpdates\<lparr>start_upd := Some (41 / 4), end_upd := Some (73 / 4)\<rparr>)]"
    unfolding p u by auto
  with f n w c e a show ?thesis
    by blast
qed

text \<open>
  Claim C2 as stated fails: when the pointer is released after three moves and a frame,
  the drag state is idle, no update has reached the store and the mutation of the last
  move is still pending.
\<close>

definition releaseTrace :: "event list" where
  "releaseTrace =
     [StartDrag move ''work-block'' 100, MouseMove 110 1000, MouseMove 120 1000,
      MouseMove 150 1000, AnimationFrame, MouseUp]"

definition releasedState :: TimelineState where
  "releasedState =
     \<lparr>blocks = defaultBlocks, dragState = noDrag, frameCallbacks = [],
      pendingUpdate =
        Some (''work-block'', noUpdates\<lparr>start_upd := Some (41 / 4), end_upd := Some (73 / 4)\<rparr>),
      updateCalls = [], selectedBlock = None,
      picker = \<lparr>startHour = 0, startMinute = 0, endHour = 0, endMinute = 0\<rparr>\<rparr>"

theorem release_without_flush:
  "run id ''work'' (initialState defaultBlocks) releaseTrace = Some releasedState \<and>
   type (dragState releasedState) = None \<and>
   updateCalls releasedState = [] \<and>
   blocks releasedState = defaultBlocks \<and>
   pendingUpdate releasedState
     = Some (''work-block'', noUpdates\<lparr>start_upd := Some (41 / 4), end_upd := Some (73 / 4)\<rparr>)"
  by (simp add: releaseTrace_def releasedState_def run_defs)

section \<open>A target that disappears\<close>

text \<open>
  Claim C3, as amended. A pointer move whose target is not in the current snapshot is
  ignored: the state stays as it is, so the gesture stays active, nothing is queued and
  a pending mutation is not cancelled. When the timer expires, the pending mutation is
  passed to the store's update all the same; it changes no block when no block has its
  id.
\<close>

theorem vanished_target_ignored:
  "(find (\<lambda>b. Some (id_blk b) = blockId (dragState s)) (timelineBlocks cal s) = None \<longrightarrow>
      step fl cal s (MouseMove x w) = Some s) \<and>
   (pendingUpdate s = Some (i, u) \<longrightarrow>
      updateCalls (debounceTimer s) = updateCalls s @ [(i, u)] \<and>
      pendingUpdate (debounceTimer s) = None \<and>
      dragState (debounceTimer s) = dragState s \<and>
      (i \<notin> id_blk ` set (blocks s) \<longrightarrow> blocks (debounceTimer s) = blocks s))"
  by (simp add: handleMouseMove_def debounceTimer_def callUpdateBlock_def onUpdateBlock_absent)

text \<open>The state in which the work block has been deleted during its move.\<close>

definition vanishTrace :: "event list" where
  "vanishTrace =
     [StartDrag move ''work-block'' 100, MouseMove 150 1000, AnimationFrame,
      Delete ''work-block'']"

definition vanishedState :: TimelineState where
  "vanishedState =
     \<lparr>blocks = [sleepBlock],
      dragState = \<lparr>type = Some move, blockId = Some ''work-block'', initialX = 100,
        initialStart = 9, initialEnd = 17\<rparr>,
      frameCallbacks = [],
      pendingUpdate =
        Some (''work-block'', noUpdates\<lparr>start_upd := Some (41 / 4), end_upd := Some (73 / 4)\<rparr>),
      updateCalls = [], selectedBlock = None,
      picker = \<lparr>startHour = 0, startMinute = 0, endHour = 0, endMinute = 0\<rparr>\<rparr>"

lemma vanishTrace_run: "run id ''work'' (initialState defaultBlocks) vanishTrace = Some vanishedState"
  by (simp add: vanishTrace_def vanishedState_def run_defs)

theorem vanished_target_ignored_witness:
  "find (\<lambda>b. Some (id_blk b) = blockId (dragState vanishedState)) (timelineBlocks ''work'' vanishedState)
     = None \<and>
   pendingUpdate vanishedState
     = Some (''work-block'', noUpdates\<lparr>start_upd := Some (41 / 4), end_upd := Some (73 / 4)\<rparr>) \<and>
   ''work-block'' \<notin> id_blk ` set (blocks vanishedState) \<and>
   step id ''work'' vanishedState (MouseMove 160 1000) = Some vanishedState \<and>
   updateCalls (debounceTimer vanishedState)
     = [(''work-block'', noUpdates\<lparr>start_upd := Some (41 / 4), end_upd := Some (73 / 4)\<rparr>)] \<and>
   blocks (debounceTimer vanishedState) = [sleepBlock]"
proof -
  have h: "find (\<lambda>b. Some (id_blk b) = blockId (dragState vanishedState)) (timelineBlocks ''work'' vanishedState)
     = None"
    "pendingUpdate vanishedState
     = Some (''work-block'', noUpdates\<lparr>start_upd := Some (41 / 4), end_upd := Some (73 / 4)\<rparr>)"
    "''work-block'' \<notin> id_blk ` set (blocks vanishedState)"
    by (simp_all add: vanishedState_def timelineBlocks_def sleepBlock_def)
  have e: "updateCalls vanishedState = []" "blocks vanishedState = [sleepBlock]"
    by (simp_all add: vanishedState_def)
  from vanished_target_ignored [where s = vanishedState and cal = "''work''" and fl = id and x = 160
      and w = 1000 and i = "''work-block''"
      and u = "noUpdates\<lparr>start_upd := Some (41 / 4), end_upd := Some (73 / 4)\<rparr>"] h e
  show ?thesis
    by simp
qed

text \<open>
  Claim C3 as stated fails: after the work block is deleted during its move, the next
  pointer move leaves the gesture active and the mutation pending, and the timer
  delivers that mutation.
\<close>

theorem vanished_target_keeps_gesture:
  "run id ''work'' (initialState defaultBlocks) vanishTrace = Some vanishedState \<and>
   map id_blk (timelineBlocks ''work'' vanishedState) = [] \<and>
   step id ''work'' vanishedState (MouseMove 160 1000) = Some vanishedState \<and>
   type (dragState vanishedState) = Some move \<and>
   pendingUpdate vanishedState
     = Some (''work-block'', noUpdates\<lparr>start_upd := Some (41 / 4), end_upd := Some (73 / 4)\<rparr>) \<and>
   map_option updateCalls (run id ''work'' vanishedState [MouseMove 160 1000, DebounceTimer])
     = Some [(''work-block'', noUpdates\<lparr>start_upd := Some (41 / 4), end_upd := Some (73 / 4)\<rparr>)]"
  by (simp add: vanishTrace_run)
    (simp add: vanishedState_def handleMouseMove_def timelineBlocks_def sleepBlock_def
      debounceTimer_def callUpdateBlock_def)

section \<open>Times from the picker\<close>

lemma quantized_minutes:
  fixes h m :: int
  shows "quantized (of_int h + of_int m / 60) \<longleftrightarrow> 15 dvd m"
proof
  assume "quantized (of_int h + of_int m / 60)"
  then obtain k :: int where "of_int h + of_int m / 60 = (of_int k / 4 :: real)"
    by (auto simp: quantized_iff)
  then have "(of_int (60 * h + m) :: real) = of_int (15 * k)"
    by (simp add: field_simps)
  then have "60 * h + m = 15 * k"
    by (simp only: of_int_eq_iff)
  then show "15 dvd m"
    by presburger
next
  assume "15 dvd m"
  then obtain n where n: "m = 15 * n" ..
  have "of_int h + of_int m / 60 = (of_int (4 * h + n) / 4 :: real)"
    by (simp add: n field_simps)
  then show "quantized (of_int h + of_int m / 60)"
    unfolding quantized_iff by blast
qed

lemma minute_grid:
  fixes m :: int
  shows "0 \<le> m \<Longrightarrow> m \<le> 59 \<Longrightarrow> 15 dvd m \<longleftrightarrow> m \<in> {0, 15, 30, 45}"
  by (simp, presburger)

lemma picker_time_range:
  fixes h m :: int
  assumes "0 \<le> h" "h \<le> 23" "0 \<le> m" "m \<le> 59"
  shows "0 \<le> (of_int h + of_int m / 60 :: real)" and "(of_int h + of_int m / 60 :: real) < 24"
proof -
  have "(0::real) \<le> of_int h" "(of_int h :: real) \<le> 23" "(0::real) \<le> of_int m"
    "(of_int m :: real) \<le> 59"
    using assms by simp_all
  then show "0 \<le> (of_int h + of_int m / 60 :: real)" "(of_int h + of_int m / 60 :: real) < 24"
    by (simp_all add: field_simps)
qed

text \<open>
  Claim C4, as amended. Saving in the time picker forwards the pair computed from its
  fields, \<open>hour + minute / 60\<close> for the start and for the end, unchanged: it is the
  update passed to the store, and the start and the end of the stored block with the
  selected id. Nothing is clamped or rounded. With the fields in their ranges (hours 0
  to 23, minutes 0 to 59) each time lies in \<open>[0, 24)\<close>, and it is quantized exactly when
  its minute field is 0, 15, 30 or 45.
\<close>

theorem time_edit_forwarded:
  assumes "selectedBlock s = Some b"
  shows "updateCalls (handleSave s) = updateCalls s @
       [(id_blk b, noUpdates\<lparr>
           start_upd := Some (of_int (startHour (picker s)) + of_int (startMinute (picker s)) / 60),
           end_upd := Some (of_int (endHour (picker s)) + of_int (endMinute (picker s)) / 60)\<rparr>)] \<and>
     length (blocks (handleSave s)) = length (blocks s) \<and>
     (\<forall>k<length (blocks s). id_blk (blocks s ! k) = id_blk b \<longrightarrow>
        start (blocks (handleSave s) ! k)
          = of_int (startHour (picker s)) + of_int (startMinute (picker s)) / 60 \<and>
        end_blk (blocks (handleSave s) ! k)
          = of_int (endHour (picker s)) + of_int (endMinute (picker s)) / 60) \<and>
     (0 \<le> startHour (picker s) \<and> startHour (picker s) \<le> 23 \<and>
      0 \<le> startMinute (picker s) \<and> startMinute (picker s) \<le> 59 \<longrightarrow>
        (0::real) \<le> of_int (startHour (picker s)) + of_int (startMinute (picker s)) / 60 \<and>
        of_int (startHour (picker s)) + of_int (startMinute (picker s)) / 60 < (24::real) \<and>
        (quantized (of_int (startHour (picker s)) + of_int (startMinute (picker s)) / 60)
          \<longleftrightarrow> startMinute (picker s) \<in> {0, 15, 30, 45})) \<and>
     (0 \<le> endHour (picker s) \<and> endHour (picker s) \<le> 23 \<and>
      0 \<le> endMinute (picker s) \<and> endMinute (picker s) \<le> 59 \<longrightarrow>
        (0::real) \<le> of_int (endHour (picker s)) + of_int (endMinute (picker s)) / 60 \<and>
        of_int (endHour (picker s)) + of_int (endMinute (picker s)) / 60 < (24::real) \<and>
        (quantized (of_int (endHour (picker s)) + of_int (endMinute (picker s)) / 60)
          \<longleftrightarrow> endMinute (picker s) \<in> {0, 15, 30, 45}))"
proof -
  let ?st = "of_int (startHour (picker s)) + of_int (startMinute (picker s)) / 60 :: real"
  let ?en = "of_int (endHour (picker s)) + of_int (endMinute (picker s)) / 60 :: real"
  let ?u = "noUpdates\<lparr>start_upd := Some ?st, end_upd := Some ?en\<rparr>"
  have save: "handleSave s = (callUpdateBlock (id_blk b) ?u s)\<lparr>selectedBlock := None\<rparr>"
    using assms by (simp add: handleSave_def onUpdateTime_def Let_def)
  have calls: "updateCalls (handleSave s) = updateCalls s @ [(id_blk b, ?u)]"
    by (simp add: save callUpdateBlock_def)
  have bl: "blocks (handleSave s) = onUpdateBlock (id_blk b) ?u (blocks s)"
    by (simp add: save callUpdateBlock_def)
  have len: "length (blocks (handleSave s)) = length (blocks s)"
    by (simp add: bl onUpdateBlock_def)
  have stored: "start (blocks (handleSave s) ! k) = ?st \<and> end_blk (blocks (handleSave s) ! k) = ?en"
    if "k < length (blocks s)" "id_blk (blocks s ! k) = id_blk b" for k
    using that by (simp add: bl onUpdateBlock_def applyUpdates_fields noUpdates_def)
  have grid: "0 \<le> (of_int h + of_int m / 60 :: real) \<and> (of_int h + of_int m / 60 :: real) < 24 \<and>
      (quantized (of_int h + of_int m / 60) \<longleftrightarrow> m \<in> {0, 15, 30, 45})"
    if "0 \<le> h \<and> h \<le> 23 \<and> 0 \<le> m \<and> m \<le> 59" for h m :: int
    using that picker_time_range [of h m] minute_grid [of m] quantized_minutes [of h m] by blast
  have gs: "0 \<le> startHour (picker s) \<and> startHour (picker s) \<le> 23 \<and>
      0 \<le> startMinute (picker s) \<and> startMinute (picker s) \<le> 59 \<longrightarrow>
        (0::real) \<le> ?st \<and> ?st < 24 \<and> (quantized ?st \<longleftrightarrow> startMinute (picker s) \<in> {0, 15, 30, 45})"
    using grid [of "startHour (picker s)" "startMinute (picker s)"] by (rule impI)
  have ge: "0 \<le> endHour (picker s) \<and> endHour (picker s) \<le> 23 \<and>
      0 \<le> endMinute (picker s) \<and> endMinute (picker s) \<le> 59 \<longrightarrow>
        (0::real) \<le> ?en \<and> ?en < 24 \<and> (quantized ?en \<longleftrightarrow> endMinute (picker s) \<in> {0, 15, 30, 45})"
    using grid [of "endHour (picker s)" "endMinute (picker s)"] by (rule impI)
  have st: "\<forall>k<length (blocks s). id_blk (blocks s ! k) = id_blk b \<longrightarrow>
        start (blocks (handleSave s) ! k) = ?st \<and> end_blk (blocks (handleSave s) ! k) = ?en"
    using stored by blast
  show ?thesis
    by (intro conjI calls len st gs ge)
qed

text \<open>The work block with the start minute set to 7.\<close>

definition pickerTrace :: "event list" where
  "pickerTrace = [TimeEdit ''work-block'', PickerInput StartMinute 7]"

definition pickedState :: TimelineState where
  "pickedState =
     \<lparr>blocks = defaultBlocks, dragState = noDrag, frameCallbacks = [], pendingUpdate = None,
      updateCalls = [], selectedBlock = Some workBlock,
      picker = \<lparr>startHour = 9, startMinute = 7, endHour = 17, endMinute = 0\<rparr>\<rparr>"

lemma pickerTrace_run: "run id ''work'' (initialState defaultBlocks) pickerTrace = Some pickedState"
  by (simp add: pickerTrace_def pickedState_def run_defs)

theorem time_edit_forwarded_witness:
  "selectedBlock pickedState = Some workBlock \<and>
   (0::nat) < length (blocks pickedState) \<and> id_blk (blocks pickedState ! 0) = id_blk workBlock \<and>
   0 \<le> startHour (picker pickedState) \<and> startHour (picker pickedState) \<le> 23 \<and>
   0 \<le> startMinute (picker pickedState) \<and> startMinute (picker pickedState) \<le> 59 \<and>
   0 \<le> endHour (picker pickedState) \<and> endHour (picker pickedState) \<le> 23 \<and>
   0 \<le> endMinute (picker pickedState) \<and> endMinute (picker pickedState) \<le> 59 \<and>
   start (blocks (handleSave pickedState) ! 0) = 547 / 60 \<and>
   end_blk (blocks (handleSave pickedState) ! 0) = 17 \<and>
   \<not> quantized (547 / 60) \<and> quantized 17"
proof -
  have sel: "selectedBlock pickedState = Some workBlock"
    by (simp add: pickedState_def)
  have h: "(0::nat) < length (blocks pickedState)" "id_blk (blocks pickedState ! 0) = id_blk workBlock"
    by (simp_all add: pickedState_def defaultBlocks_def)
  have r: "0 \<le> startHour (picker pickedState) \<and> startHour (picker pickedState) \<le> 23 \<and>
      0 \<le> startMinute (picker pickedState) \<and> startMinute (picker pickedState) \<le> 59"
    "0 \<le> endHour (picker pickedState) \<and> endHour (picker pickedState) \<le> 23 \<and>
      0 \<le> endMinute (picker pickedState) \<and> endMinute (picker pickedState) \<le> 59"
    by (simp_all add: pickedState_def)
  have v: "of_int (startHour (picker pickedState)) + of_int (startMinute (picker pickedState)) / 60
      = (547 / 60 :: real)"
    "of_int (endHour (picker pickedState)) + of_int (endMinute (picker pickedState)) / 60 = (17 :: real)"
    "startMinute (picker pickedState) \<notin> {0, 15, 30, 45}"
    "endMinute (picker pickedState) \<in> {0, 15, 30, 45}"
    by (simp_all add: pickedState_def)
  note t = time_edit_forwarded [OF sel, unfolded v]
  from t h have "start (blocks (handleSave pickedState) ! 0) = 547 / 60"
    and "end_blk (blocks (handleSave pickedState) ! 0) = 17"
    by blast+
  moreover from t r v(3,4) have "\<not> quantized (547 / 60)" and "quantized 17"
    by blast+
  ultimately show ?thesis
    using sel h r by blast
qed

text \<open>
  Claim C4 as stated fails: after the minute 7 is typed for the start of the work block
  and saved, the stored start is 9:07, which is not a multiple of a quarter of an hour.
\<close>

theorem time_edit_off_grid:
  "run id ''work'' (initialState defaultBlocks) pickerTrace = Some pickedState \<and>
   map start (blocks (handleSave pickedState)) = [547 / 60, 23] \<and>
   \<not> quantized (547 / 60)"
  by (simp add: pickerTrace_run)
    (simp add: pickedState_def handleSave_def onUpdateTime_def callUpdateBlock_def onUpdateBlock_def
      Let_def applyUpdates_def orElse_def noUpdates_def defaultBlocks_def workBlock_def sleepBlock_def
      quantized_def roundQuarter_def round_def)

end
